theory Spec2Isabelle
  imports Main
begin

section \<open>JavaScript strings and the values the program passes around\<close>

text \<open>
  The program is \<^verbatim>\<open>src/ts_isolate.ts\<close>. A JavaScript string is a sequence of code
  units; it is modelled as a \<open>string\<close>, one \<open>char\<close> per code unit. Offsets and lengths
  of a \<^verbatim>\<open>TextChange\<close> are JavaScript numbers holding integers; they are modelled as
  \<open>int\<close>, so that negative and out-of-range spans are inputs of the model too.

  \<^verbatim>\<open>String.prototype.substring(a, b)\<close> clamps both arguments to \<open>[0, length]\<close> and swaps
  them when the first is the larger one; with the second argument omitted it reads to
  the end of the string.
\<close>

definition substring :: "string \<Rightarrow> int \<Rightarrow> int \<Rightarrow> string" where
  "substring s a b =
     (let n = int (length s);
          a' = min (max a 0) n;
          b' = min (max b 0) n;
          lo = min a' b';
          hi = max a' b'
      in take (nat (hi - lo)) (drop (nat lo) s))"

definition substringFrom :: "string \<Rightarrow> int \<Rightarrow> string" where
  "substringFrom s a = substring s a (int (length s))"

text \<open>\<^verbatim>\<open>Array.prototype.join\<close> on an array of strings.\<close>

fun join :: "string \<Rightarrow> string list \<Rightarrow> string" where
  "join sep [] = []"
| "join sep [x] = x"
| "join sep (x # y # ys) = x @ sep @ join sep (y # ys)"

text \<open>Reading a literal piece of a pattern off the front of a text.\<close>

fun stripPrefix :: "string \<Rightarrow> string \<Rightarrow> string option" where
  "stripPrefix [] s = Some s"
| "stripPrefix (p # ps) [] = None"
| "stripPrefix (p # ps) (c # cs) = (if p = c then stripPrefix ps cs else None)"

text \<open>The TypeScript library's \<^verbatim>\<open>TextSpan\<close> and \<^verbatim>\<open>TextChange\<close>.\<close>

record TextSpan =
  start :: int
  length' :: int

record TextChange =
  span :: TextSpan
  newText :: string

text \<open>
  \<^verbatim>\<open>assert(...)\<close> and \<^verbatim>\<open>assert.fail(message)\<close> of \<^verbatim>\<open>node:assert\<close> throw an
  \<^verbatim>\<open>AssertionError\<close>; the model keeps the message (empty for a bare \<^verbatim>\<open>assert\<close>).
\<close>

datatype error = AssertionError string

section \<open>The regular expression \<^verbatim>\<open>dynamicTypeRegex\<close>\<close>

text \<open>
  \<^verbatim>\<open>const dynamicTypeRegex = /\bimport\("([^"]+)"\)\.([A-Za-z0-9_]+)\b/g;\<close>

  \<open>isWordChar\<close> is the class \<^verbatim>\<open>[A-Za-z0-9_]\<close>, which is also the class \<^verbatim>\<open>\b\<close> is
  defined by (the pattern has neither the \<^verbatim>\<open>i\<close> nor the \<^verbatim>\<open>u\<close> flag).
\<close>

definition isWordChar :: "char \<Rightarrow> bool" where
  "isWordChar c =
     (let n = (of_char c :: nat)
      in (65 \<le> n \<and> n \<le> 90) \<or> (97 \<le> n \<and> n \<le> 122) \<or> (48 \<le> n \<and> n \<le> 57) \<or> n = 95)"

definition dq :: char where
  "dq = CHR 0x22"

definition sq :: char where
  "sq = CHR 0x27"

text \<open>
  One attempt of the pattern at offset \<open>i\<close> of \<open>s\<close>. The result is the match's
  \<^verbatim>\<open>index\<close>, the matched text and the two groups (module, type).

  The leading \<^verbatim>\<open>\b\<close> compares the character before \<open>i\<close> with the character at \<open>i\<close>.
  \<^verbatim>\<open>[^"]+\<close> is greedy and is followed by a literal double quote: every shorter choice
  leaves a character other than a double quote where the quote is required, so only the
  longest run can match. \<^verbatim>\<open>[A-Za-z0-9_]+\<close> is greedy and is followed by \<^verbatim>\<open>\b\<close>: after
  the longest run the next character is no word character, so the final \<^verbatim>\<open>\b\<close> holds
  there and the longest run is the one the engine returns. The section on the
  backtracking rules below proves this reading against the pattern written out piece by
  piece (\<open>dynamicTypeRegexAt_is_backtracking\<close>).
\<close>

definition dynamicTypeRegexAt :: "string \<Rightarrow> nat \<Rightarrow> (nat \<times> string \<times> string \<times> string) option" where
  \<open>dynamicTypeRegexAt s i =
     (let rest = drop i s;
          wordBefore = (0 < i \<and> i \<le> length s \<and> isWordChar (s ! (i - 1)));
          wordHere = (case rest of [] \<Rightarrow> False | c # _ \<Rightarrow> isWordChar c)
      in if wordBefore = wordHere then None
         else (case stripPrefix ''import("'' rest of
                 None \<Rightarrow> None
               | Some r1 \<Rightarrow>
                   (let m = takeWhile (\<lambda>c. c \<noteq> dq) r1;
                        r2 = dropWhile (\<lambda>c. c \<noteq> dq) r1
                    in if m = [] then None
                       else (case stripPrefix ''").'' r2 of
                               None \<Rightarrow> None
                             | Some r3 \<Rightarrow>
                                 (let t = takeWhile isWordChar r3
                                  in if t = [] then None
                                     else Some (i, ''import("'' @ m @ ''").'' @ t, m, t))))))\<close>

text \<open>
  \<^verbatim>\<open>RegExpBuiltinExec\<close> for a global pattern: starting at \<^verbatim>\<open>lastIndex\<close>, try each offset
  in turn; give up once the offset is beyond the end of the text.
\<close>

function regexExecFrom :: "string \<Rightarrow> nat \<Rightarrow> (nat \<times> string \<times> string \<times> string) option" where
  "regexExecFrom s i =
     (if length s < i then None
      else (case dynamicTypeRegexAt s i of
              Some m \<Rightarrow> Some m
            | None \<Rightarrow> regexExecFrom s (Suc i)))"
  by pat_completeness auto
termination
  by (relation "measure (\<lambda>(s, i). Suc (length s) - i)") auto

declare regexExecFrom.simps [simp del]

text \<open>
  \<^verbatim>\<open>dynamicTypeRegex.test(text)\<close>. The pattern is global, so \<^verbatim>\<open>test\<close> starts at the
  pattern object's \<^verbatim>\<open>lastIndex\<close> and writes it back: the end of the match on success,
  0 on failure. The pattern object is a module-level constant, so its \<^verbatim>\<open>lastIndex\<close> is
  state that outlives a call of \<^verbatim>\<open>applyTextChanges\<close>; the model passes it in and out.
\<close>

definition regexTest :: "string \<Rightarrow> nat \<Rightarrow> bool \<times> nat" where
  "regexTest s lastIndex =
     (case regexExecFrom s lastIndex of
        None \<Rightarrow> (False, 0)
      | Some (i, matchText, _, _) \<Rightarrow> (True, i + length matchText))"

lemma regexExecFrom_bounds:
  "regexExecFrom s li = Some (i, mt, m, t) \<Longrightarrow> li \<le> i \<and> i \<le> length s"
proof (induction s li rule: regexExecFrom.induct)
  case (1 s k)
  show ?case
  proof (cases "dynamicTypeRegexAt s k")
    case None
    with 1 show ?thesis
      by (auto simp: regexExecFrom.simps [of s k] split: if_splits)
  next
    case (Some r)
    with 1 show ?thesis
      by (auto simp: regexExecFrom.simps [of s k] dynamicTypeRegexAt_def Let_def
               split: if_splits option.splits)
  qed
qed

text \<open>
  \<^verbatim>\<open>text.matchAll(dynamicTypeRegex)\<close> works on a copy of the pattern object whose
  \<^verbatim>\<open>lastIndex\<close> starts at the original's; the original is left alone. After an empty
  match the copy's \<^verbatim>\<open>lastIndex\<close> is advanced by one.
\<close>

function matchAll :: "string \<Rightarrow> nat \<Rightarrow> (nat \<times> string \<times> string \<times> string) list" where
  "matchAll s lastIndex =
     (case regexExecFrom s lastIndex of
        None \<Rightarrow> []
      | Some (i, matchText, m, t) \<Rightarrow>
          (i, matchText, m, t)
            # matchAll s (if matchText = [] then Suc (i + length matchText)
                          else i + length matchText))"
  by pat_completeness auto
termination
proof (relation "measure (\<lambda>(s, li). Suc (length s) - li)", goal_cases)
  case 1
  show ?case by simp
next
  case (2 s li r i rest mt rest' m t)
  then have "regexExecFrom s li = Some (i, mt, m, t)" by simp
  then have "li \<le> i \<and> i \<le> length s" by (rule regexExecFrom_bounds)
  then show ?case by (cases mt) auto
qed

declare matchAll.simps [simp del]

section \<open>The import demand: \<^verbatim>\<open>importsToAddByModule\<close>\<close>

text \<open>
  \<^verbatim>\<open>new Map<string, Set<string>>()\<close>. A JavaScript \<^verbatim>\<open>Map\<close> and a \<^verbatim>\<open>Set\<close> iterate in
  insertion order, so the map is an association list in insertion order of its keys and
  each set a duplicate-free list in insertion order of its members.
\<close>

type_synonym ImportsMap = "(string \<times> string list) list"

text \<open>
  Lines 167 to 170:
  \<^verbatim>\<open>if (!importsToAddByModule.has(module)) { importsToAddByModule.set(module, new Set()); }\<close>
  \<^verbatim>\<open>importsToAddByModule.get(module)!.add(type);\<close>
\<close>

definition setAdd :: "string list \<Rightarrow> string \<Rightarrow> string list" where
  "setAdd types t = (if t \<in> set types then types else types @ [t])"

definition addImport :: "ImportsMap \<Rightarrow> string \<Rightarrow> string \<Rightarrow> ImportsMap" where
  "addImport imports m t =
     (let imports1 = (if m \<in> fst ` set imports then imports else imports @ [(m, [])])
      in map (\<lambda>(k, types). if k = m then (k, setAdd types t) else (k, types)) imports1)"

text \<open>
  Lines 198 to 200, the block without its leading newline:
  \<^verbatim>\<open>[...importsToAddByModule].map(([module, types]) =>\<close>
  \<^verbatim>\<open>  `import {${[...types].join(', ')}} from '${module}';`).join('\n')\<close>
\<close>

definition importLine :: "string \<times> string list \<Rightarrow> string" where
  \<open>importLine = (\<lambda>(m, types). ''import {'' @ join '', '' types @ ''} from '' @ [sq] @ m @ [sq] @ '';'')\<close>

definition importBlock :: "ImportsMap \<Rightarrow> string" where
  "importBlock imports = join ''\<newline>'' (map importLine imports)"

section \<open>\<^verbatim>\<open>applyTextChanges\<close>\<close>

text \<open>
  Line 182, the splice of one edit:
  \<^verbatim>\<open>fileText = `${fileText.substring(0, start)}${updatedText}${fileText.substring(end)}`;\<close>
\<close>

definition splice :: "string \<Rightarrow> int \<Rightarrow> int \<Rightarrow> string \<Rightarrow> string" where
  "splice fileText st en updatedText =
     substring fileText 0 st @ updatedText @ substringFrom fileText en"

text \<open>
  \<^verbatim>\<open>applyTextChanges(fileText, textChanges, false)\<close>: with \<^verbatim>\<open>fixupTypes\<close> false the
  loop body is lines 151 to 157 and 182, both \<^verbatim>\<open>if (fixupTypes)\<close> blocks are skipped,
  and \<^verbatim>\<open>importsToAddByModule\<close> stays empty, so the text after the loop is returned.
  The loop runs \<^verbatim>\<open>i\<close> from the last index down to 0; \<open>plainLoop\<close> takes the edits in
  that order.
\<close>

fun plainLoop :: "TextChange list \<Rightarrow> string \<Rightarrow> string" where
  "plainLoop [] fileText = fileText"
| "plainLoop (c # cs) fileText =
     plainLoop cs
       (splice fileText (start (span c)) (start (span c) + length' (span c)) (newText c))"

definition applyTextChangesNoFixup :: "string \<Rightarrow> TextChange list \<Rightarrow> string" where
  "applyTextChangesNoFixup fileText textChanges = plainLoop (rev textChanges) fileText"

text \<open>
  Lines 164 to 176, the loop over the matches of \<^verbatim>\<open>newText\<close>: it asserts that both
  groups are non-empty (a non-empty string is truthy), records the pair and pushes the
  nested edit that replaces the whole match with the type name.
\<close>

fun matchLoop ::
  "(nat \<times> string \<times> string \<times> string) list \<Rightarrow> ImportsMap \<Rightarrow> TextChange list
     \<Rightarrow> error + (ImportsMap \<times> TextChange list)" where
  "matchLoop [] imports changes = Inr (imports, changes)"
| "matchLoop ((index, matchText, m, t) # ms) imports changes =
     (if m = [] \<or> t = [] then Inl (AssertionError [])
      else matchLoop ms (addImport imports m t)
             (changes @ [\<lparr>span = \<lparr>start = int index, length' = int (length matchText)\<rparr>,
                          newText = t\<rparr>]))"

text \<open>
  Line 186:
  \<^verbatim>\<open>fileText.replace(/import \{( type)? JSX \} from 'react\/jsx-runtime';\n/g, '')\<close>.
  The pattern is a literal of the call, hence a fresh object with \<^verbatim>\<open>lastIndex\<close> 0; it
  matches one of two fixed lines. \<open>jsxImportAt\<close> gives the text after a match at the
  front; \<open>removeJsxImports\<close> deletes every match, scanning from the left.
\<close>

definition jsxImportAt :: "string \<Rightarrow> string option" where
  \<open>jsxImportAt s =
     (case stripPrefix ''import {'' s of
        None \<Rightarrow> None
      | Some r0 \<Rightarrow>
          (let r1 = (case stripPrefix '' type'' r0 of None \<Rightarrow> r0 | Some r \<Rightarrow> r)
           in case stripPrefix '' JSX } from 'react/jsx-runtime';\<newline>'' r1 of
                Some r \<Rightarrow> Some r
              | None \<Rightarrow> stripPrefix '' JSX } from 'react/jsx-runtime';\<newline>'' r0))\<close>

lemma stripPrefix_length:
  "stripPrefix p s = Some r \<Longrightarrow> length r + length p = length s"
  by (induction p s rule: stripPrefix.induct) (auto split: if_splits)

lemma jsxImportAt_shorter:
  "jsxImportAt s = Some r \<Longrightarrow> length r < length s"
  by (auto simp: jsxImportAt_def Let_def split: option.splits dest!: stripPrefix_length)

function removeJsxImports :: "string \<Rightarrow> string" where
  "removeJsxImports [] = []"
| "removeJsxImports (c # cs) =
     (case jsxImportAt (c # cs) of
        Some r \<Rightarrow> removeJsxImports r
      | None \<Rightarrow> c # removeJsxImports cs)"
  by pat_completeness auto
termination
  by (relation "measure length") (auto dest: jsxImportAt_shorter)

text \<open>
  Lines 151 to 182 with \<^verbatim>\<open>fixupTypes\<close> true: one turn of the loop. The state is the
  text so far, the import demand, and \<^verbatim>\<open>dynamicTypeRegex.lastIndex\<close>. The nested call
  of line 178 is \<open>applyTextChangesNoFixup\<close>.
\<close>

definition editStep ::
  "TextChange \<Rightarrow> string \<times> ImportsMap \<times> nat \<Rightarrow> (error + (string \<times> ImportsMap)) \<times> nat" where
  "editStep c = (\<lambda>(fileText, imports, lastIndex).
     (let st = start (span c);
          en = st + length' (span c);
          oldText = substring fileText st en;
          (matched, lastIndex1) = regexTest oldText lastIndex
      in if matched then (Inr (splice fileText st en (newText c), imports), lastIndex1)
         else (case matchLoop (matchAll (newText c) lastIndex1) imports [] of
                 Inl e \<Rightarrow> (Inl e, lastIndex1)
               | Inr (imports1, changes) \<Rightarrow>
                   (Inr (splice fileText st en (applyTextChangesNoFixup (newText c) changes),
                         imports1),
                    lastIndex1))))"

fun editLoop ::
  "TextChange list \<Rightarrow> string \<times> ImportsMap \<times> nat \<Rightarrow> (error + (string \<times> ImportsMap)) \<times> nat" where
  "editLoop [] (fileText, imports, lastIndex) = (Inr (fileText, imports), lastIndex)"
| "editLoop (c # cs) state =
     (case editStep c state of
        (Inl e, lastIndex1) \<Rightarrow> (Inl e, lastIndex1)
      | (Inr (fileText1, imports1), lastIndex1) \<Rightarrow> editLoop cs (fileText1, imports1, lastIndex1))"

text \<open>
  Lines 189 to 201. The TypeScript parser is a library the repository calls, not code of
  the repository: \<open>importEnds text\<close> stands for the \<^verbatim>\<open>end\<close> offsets of the top-level
  import declarations of \<^verbatim>\<open>ts.createSourceFile('_.tsx', text, ...)\<close>, in source order.
  \<^verbatim>\<open>importStatements.at(-1)\<close> is the last of them, or \<^verbatim>\<open>undefined\<close> when there is
  none, and then \<^verbatim>\<open>assert(lastImportStatement)\<close> throws.
\<close>

definition insertImports :: "(string \<Rightarrow> int list) \<Rightarrow> string \<Rightarrow> ImportsMap \<Rightarrow> error + string" where
  "insertImports importEnds fileText imports =
     (if imports = [] then Inr fileText
      else (case importEnds fileText of
              [] \<Rightarrow> Inl (AssertionError [])
            | e # es \<Rightarrow>
                (let insertionPosition = last (e # es)
                 in Inr (substring fileText 0 insertionPosition @ ''\<newline>''
                          @ importBlock imports @ substringFrom fileText insertionPosition))))"

text \<open>
  The whole function. Its arguments beyond the source's are the parser and the value of
  \<^verbatim>\<open>dynamicTypeRegex.lastIndex\<close> when the call starts; beside the returned text (or the
  error thrown) it gives the value of \<^verbatim>\<open>lastIndex\<close> when the call ends.
\<close>

definition applyTextChanges ::
  "(string \<Rightarrow> int list) \<Rightarrow> nat \<Rightarrow> string \<Rightarrow> TextChange list \<Rightarrow> bool \<Rightarrow> (error + string) \<times> nat" where
  "applyTextChanges importEnds lastIndex fileText textChanges fixupTypes =
     (if fixupTypes then
        (case editLoop (rev textChanges) (fileText, [], lastIndex) of
           (Inl e, lastIndex1) \<Rightarrow> (Inl e, lastIndex1)
         | (Inr (fileText1, imports), lastIndex1) \<Rightarrow>
             (insertImports importEnds (removeJsxImports fileText1) imports, lastIndex1))
      else (Inr (applyTextChangesNoFixup fileText textChanges), lastIndex))"

section \<open>\<^verbatim>\<open>genCodeFixesFromProject\<close>\<close>

text \<open>
  What the loop reads of a \<^verbatim>\<open>ts.SourceFile\<close> of \<^verbatim>\<open>program.getSourceFiles()\<close>.
\<close>

record SourceFile =
  fileName :: string
  isDeclarationFile :: bool

text \<open>
  Line 100, \<^verbatim>\<open>/[\\/]node_modules[\\/]/.test(file.fileName)\<close>: the pattern is not global,
  so the test looks for a match at any offset, with no state kept.
\<close>

definition isSep :: "char \<Rightarrow> bool" where
  "isSep c = (c = CHR ''/'' \<or> c = CHR 0x5C)"

definition nodeModulesAt :: "string \<Rightarrow> bool" where
  "nodeModulesAt s =
     (case s of
        [] \<Rightarrow> False
      | c # r \<Rightarrow>
          isSep c \<and>
          (case stripPrefix ''node_modules'' r of
             None \<Rightarrow> False
           | Some [] \<Rightarrow> False
           | Some (d # _) \<Rightarrow> isSep d))"

fun inNodeModules :: "string \<Rightarrow> bool" where
  "inNodeModules [] = False"
| "inNodeModules (c # cs) = (nodeModulesAt (c # cs) \<or> inNodeModules cs)"

text \<open>
  Lines 99 to 138. The language service and \<^verbatim>\<open>node:path\<close> are libraries the repository
  calls: \<open>relative\<close> stands for \<^verbatim>\<open>path.relative(program.getCurrentDirectory(), _)\<close> and
  \<open>getCombinedCodeFix relativePath\<close> for the \<^verbatim>\<open>changes\<close> of the combined code fix of
  that file, each change given by its \<^verbatim>\<open>textChanges\<close>. \<open>files\<close> is the allow-set, or
  \<open>None\<close> for \<^verbatim>\<open>null\<close>. The generator is modelled by what it yields, in order, and by
  the error that ends it, if any; \<^verbatim>\<open>console.log\<close> is left out.
\<close>

fun genCodeFixesFromProject ::
  "(string \<Rightarrow> string) \<Rightarrow> (string \<Rightarrow> TextChange list list) \<Rightarrow> string set option
     \<Rightarrow> SourceFile list \<Rightarrow> (string \<times> TextChange list) list \<times> error option" where
  "genCodeFixesFromProject relative getCombinedCodeFix files [] = ([], None)"
| "genCodeFixesFromProject relative getCombinedCodeFix files (file # rest) =
     (if inNodeModules (fileName file)
      then genCodeFixesFromProject relative getCombinedCodeFix files rest
      else if isDeclarationFile file
      then genCodeFixesFromProject relative getCombinedCodeFix files rest
      else
        (let relativePath = relative (fileName file)
         in if (case files of None \<Rightarrow> False | Some fs \<Rightarrow> relativePath \<notin> fs)
            then genCodeFixesFromProject relative getCombinedCodeFix files rest
            else
              (let changes = getCombinedCodeFix relativePath
               in if length changes = 0
                  then genCodeFixesFromProject relative getCombinedCodeFix files rest
                  else if 1 < length changes
                  then ([], Some (AssertionError (''Multiple fixes found for '' @ relativePath)))
                  else (case genCodeFixesFromProject relative getCombinedCodeFix files rest of
                          (yielded, e) \<Rightarrow> ((relativePath, changes ! 0) # yielded, e)))))"

section \<open>Definitions the statements are written with\<close>

subsection \<open>Texts with a JSX import line\<close>

text \<open>A text has a JSX import line when one of its suffixes starts with one.\<close>

fun hasJsxImport :: "string \<Rightarrow> bool" where
  "hasJsxImport [] = False"
| "hasJsxImport (c # cs) = (jsxImportAt (c # cs) \<noteq> None \<or> hasJsxImport cs)"

subsection \<open>The reconstruction from the left, and the order of a list of edits\<close>

text \<open>
  The reconstruction the specification compares with, in its words: concatenate, in
  ascending span order, the untouched gaps of the text and each edit's replacement.
  \<open>gap T a b\<close> is the untouched text from offset \<open>a\<close> up to \<open>b\<close>; \<open>spliceSorted\<close>
  walks a list of edits from the left, starting at offset \<open>pos\<close>; \<open>reconstruct\<close>
  sorts the edits by start first.
\<close>

definition gap :: "string \<Rightarrow> int \<Rightarrow> int \<Rightarrow> string" where
  "gap T a b = take (nat (b - a)) (drop (nat a) T)"

definition spanEnd :: "TextChange \<Rightarrow> int" where
  "spanEnd c = start (span c) + length' (span c)"

fun spliceSorted :: "string \<Rightarrow> int \<Rightarrow> TextChange list \<Rightarrow> string" where
  "spliceSorted T pos [] = drop (nat pos) T"
| "spliceSorted T pos (c # cs) =
     gap T pos (start (span c)) @ newText c @ spliceSorted T (spanEnd c) cs"

definition reconstruct :: "string \<Rightarrow> TextChange list \<Rightarrow> string" where
  "reconstruct T edits = spliceSorted T 0 (sort_key (\<lambda>c. start (span c)) edits)"

text \<open>
  Spans that are pairwise non-overlapping inside the text \<open>T\<close>, in any order of the list.
\<close>

fun nonOverlapping :: "string \<Rightarrow> TextChange list \<Rightarrow> bool" where
  "nonOverlapping T [] = True"
| "nonOverlapping T (c # cs) =
     (0 \<le> start (span c) \<and> 0 \<le> length' (span c) \<and> spanEnd c \<le> int (length T) \<and>
      list_all (\<lambda>d. spanEnd c \<le> start (span d) \<or> spanEnd d \<le> start (span c)) cs \<and>
      nonOverlapping T cs)"

text \<open>
  Edits listed in ascending order from offset \<open>pos\<close> on: each span starts at or after
  the end of the one before it in the list (at or after \<open>pos\<close> for the first), has a
  length that is not negative, and the last one ends inside \<open>T\<close>.
\<close>

fun inOrder :: "string \<Rightarrow> int \<Rightarrow> TextChange list \<Rightarrow> bool" where
  "inOrder T pos [] = (pos \<le> int (length T))"
| "inOrder T pos (c # cs) =
     (pos \<le> start (span c) \<and> 0 \<le> length' (span c) \<and> inOrder T (spanEnd c) cs)"

subsection \<open>What the loop over the matches computes\<close>

text \<open>
  Lines 172 to 175, the nested edit pushed for one match, and lines 167 to 170 over a
  list of matches, as plain functions: what \<open>matchLoop\<close> computes when no assertion
  fails.
\<close>

definition matchChange :: "nat \<times> string \<times> string \<times> string \<Rightarrow> TextChange" where
  "matchChange = (\<lambda>(index, matchText, m, t).
     \<lparr>span = \<lparr>start = int index, length' = int (length matchText)\<rparr>, newText = t\<rparr>)"

definition recordMatches :: "ImportsMap \<Rightarrow> (nat \<times> string \<times> string \<times> string) list \<Rightarrow> ImportsMap" where
  "recordMatches = foldl (\<lambda>imports (index, matchText, m, t). addImport imports m t)"

text \<open>
  The pair (module \<open>m\<close>, identifier \<open>t\<close>) is recorded in the import demand.
\<close>

definition demanded :: "ImportsMap \<Rightarrow> string \<Rightarrow> string \<Rightarrow> bool" where
  "demanded imps m t = list_ex (\<lambda>(k, types). k = m \<and> t \<in> set types) imps"

subsection \<open>The import demand of a sequence of pairs\<close>

text \<open>
  The demand the specification describes, written from a list of (module, identifier)
  pairs in the order they are met: \<open>firstSeen\<close> keeps the first occurrence of every
  element, in order; the modules are the first-seen modules, and each module's
  identifiers are the first-seen identifiers among its pairs.
\<close>

primrec firstSeen :: "'a list \<Rightarrow> 'a list" where
  "firstSeen [] = []"
| "firstSeen (x # xs) = x # filter (\<lambda>y. y \<noteq> x) (firstSeen xs)"

definition typesOf :: "(string \<times> string) list \<Rightarrow> string \<Rightarrow> string list" where
  "typesOf ps m = firstSeen (map snd (filter (\<lambda>p. fst p = m) ps))"

definition demandSpec :: "(string \<times> string) list \<Rightarrow> ImportsMap" where
  "demandSpec ps = map (\<lambda>m. (m, typesOf ps m)) (firstSeen (map fst ps))"

text \<open>
  The pairs the loop meets, in the order it meets them. \<open>turnMatches\<close> is what line
  164 iterates over in one turn: nothing when \<^verbatim>\<open>test\<close> answered true, the matches of
  \<^verbatim>\<open>newText\<close> otherwise. \<open>loopMatches\<close> follows the turns of the loop, each turn
  starting from the text and the \<^verbatim>\<open>lastIndex\<close> the turn before it left.
\<close>

definition matchPairs :: "(nat \<times> string \<times> string \<times> string) list \<Rightarrow> (string \<times> string) list" where
  "matchPairs = map (\<lambda>(index, matchText, m, t). (m, t))"

definition turnMatches :: "TextChange \<Rightarrow> string \<times> nat \<Rightarrow> (nat \<times> string \<times> string \<times> string) list" where
  "turnMatches c = (\<lambda>(fileText, lastIndex).
     (let st = start (span c);
          en = st + length' (span c);
          (matched, lastIndex1) = regexTest (substring fileText st en) lastIndex
      in if matched then [] else matchAll (newText c) lastIndex1))"

fun loopMatches :: "TextChange list \<Rightarrow> string \<times> nat \<Rightarrow> (nat \<times> string \<times> string \<times> string) list" where
  "loopMatches [] state = []"
| "loopMatches (c # cs) (fileText, lastIndex) =
     turnMatches c (fileText, lastIndex)
       @ (case editStep c (fileText, [], lastIndex) of
            (Inl e, lastIndex1) \<Rightarrow> []
          | (Inr (fileText1, imports1), lastIndex1) \<Rightarrow> loopMatches cs (fileText1, lastIndex1))"

subsection \<open>The pattern under the backtracking rules of ECMAScript\<close>

text \<open>
  The pieces the pattern is made of: the assertion \<^verbatim>\<open>\b\<close>, one literal character, a
  character class under the greedy quantifier \<^verbatim>\<open>+\<close>, and the start or end of a capturing
  group.
\<close>

datatype node = Boundary | Ch char | Plus "char \<Rightarrow> bool" | Mark

text \<open>
  \<^verbatim>\<open>IsWordChar\<close> at an offset (false outside the text) and the assertion \<^verbatim>\<open>\b\<close>.
\<close>

definition wordAt :: "string \<Rightarrow> nat \<Rightarrow> bool" where
  "wordAt s j = (j < length s \<and> isWordChar (s ! j))"

definition isBoundary :: "string \<Rightarrow> nat \<Rightarrow> bool" where
  "isBoundary s i = ((0 < i \<and> wordAt s (i - 1)) \<noteq> wordAt s i)"

text \<open>
  \<^verbatim>\<open>RepeatMatcher\<close> for a greedy quantifier over a class: match the class once more and
  go on; when that fails, call the continuation \<open>c\<close> at the present offset. \<^verbatim>\<open>+\<close> asks
  for one match of the class first.
\<close>

function greedyStar :: "(char \<Rightarrow> bool) \<Rightarrow> (nat \<Rightarrow> 'a option) \<Rightarrow> string \<Rightarrow> nat \<Rightarrow> 'a option" where
  "greedyStar P c s i =
     (if i < length s \<and> P (s ! i)
      then (case greedyStar P c s (Suc i) of Some r \<Rightarrow> Some r | None \<Rightarrow> c i)
      else c i)"
  by pat_completeness auto
termination
  by (relation "measure (\<lambda>(P, c, s, i). length s - i)") auto

declare greedyStar.simps [simp del]

definition greedyPlus :: "(char \<Rightarrow> bool) \<Rightarrow> (nat \<Rightarrow> 'a option) \<Rightarrow> string \<Rightarrow> nat \<Rightarrow> 'a option" where
  "greedyPlus P c s i = (if i < length s \<and> P (s ! i) then greedyStar P c s (Suc i) else None)"

text \<open>
  The matcher of a sequence of pieces, in continuation style: the state is the present
  offset and the group boundaries seen so far.
\<close>

primrec runPattern :: "node list \<Rightarrow> string \<Rightarrow> nat \<times> nat list \<Rightarrow> (nat \<times> nat list) option" where
  "runPattern [] s = (\<lambda>st. Some st)"
| "runPattern (n # r) s =
     (case n of
        Boundary \<Rightarrow> (\<lambda>(i, caps). if isBoundary s i then runPattern r s (i, caps) else None)
      | Ch ch \<Rightarrow> (\<lambda>(i, caps). if i < length s \<and> s ! i = ch then runPattern r s (Suc i, caps) else None)
      | Plus P \<Rightarrow> (\<lambda>(i, caps). greedyPlus P (\<lambda>j. runPattern r s (j, caps)) s i)
      | Mark \<Rightarrow> (\<lambda>(i, caps). runPattern r s (i, caps @ [i])))"

text \<open>
  \<^verbatim>\<open>/\bimport\("([^"]+)"\)\.([A-Za-z0-9_]+)\b/\<close> piece by piece, and one attempt of it at
  offset \<open>i\<close>: the match, when there is one, with its text and its two groups.
\<close>

definition dynamicTypePattern :: "node list" where
  \<open>dynamicTypePattern =
     [Boundary] @ map Ch ''import("'' @ [Mark, Plus (\<lambda>c. c \<noteq> dq), Mark] @ map Ch ''").''
       @ [Mark, Plus isWordChar, Mark, Boundary]\<close>

definition slice :: "string \<Rightarrow> nat \<Rightarrow> nat \<Rightarrow> string" where
  "slice s a b = take (b - a) (drop a s)"

definition dynamicTypeRegexSem :: "string \<Rightarrow> nat \<Rightarrow> (nat \<times> string \<times> string \<times> string) option" where
  "dynamicTypeRegexSem s i =
     (case runPattern dynamicTypePattern s (i, []) of
        Some (e, [a, b, c, d]) \<Rightarrow> Some (i, slice s i e, slice s a b, slice s c d)
      | _ \<Rightarrow> None)"

subsection \<open>The files the fix-discovery loop processes\<close>

text \<open>
  A file the loop processes: not under \<^verbatim>\<open>node_modules\<close>, not a declaration file, and in
  the allow-set when there is one.
\<close>

definition eligible :: "(string \<Rightarrow> string) \<Rightarrow> string set option \<Rightarrow> SourceFile \<Rightarrow> bool" where
  "eligible relative files file =
     (\<not> inNodeModules (fileName file) \<and> \<not> isDeclarationFile file \<and>
      (case files of None \<Rightarrow> True | Some fs \<Rightarrow> relative (fileName file) \<in> fs))"

subsection \<open>Example inputs\<close>

text \<open>
  Concrete texts, edits and files on which the theorems below are run. Where a parser
  is needed, the examples pass the offsets the TypeScript parser reports on these texts:
  the one import declaration \<^verbatim>\<open>import {A} from 'a';\<close> ends at offset 20.
\<close>

definition ex_sorted :: "TextChange list" where
  "ex_sorted = [\<lparr>span = \<lparr>start = 0, length' = 1\<rparr>, newText = ''YY''\<rparr>,
                \<lparr>span = \<lparr>start = 2, length' = 1\<rparr>, newText = ''X''\<rparr>]"

definition ex_unsorted :: "TextChange list" where
  "ex_unsorted = [\<lparr>span = \<lparr>start = 2, length' = 1\<rparr>, newText = ''X''\<rparr>,
                  \<lparr>span = \<lparr>start = 0, length' = 1\<rparr>, newText = ''YY''\<rparr>]"

definition ex_rewrite :: TextChange where
  \<open>ex_rewrite = \<lparr>span = \<lparr>start = 0, length' = 0\<rparr>,
                  newText = ''const x: import("pkg/mod").Foo = y;''\<rparr>\<close>

definition ex_lookup :: TextChange where
  \<open>ex_lookup = \<lparr>span = \<lparr>start = 0, length' = 0\<rparr>,
                 newText = ''const x: lookup("pkg/mod").Foo = y;''\<rparr>\<close>

definition ex_file2 :: string where
  \<open>ex_file2 = ''import {A} from 'a';\<newline>let q = g();\<newline>let p = f();''\<close>

definition ex_B :: TextChange where
  \<open>ex_B = \<lparr>span = \<lparr>start = 26, length' = 0\<rparr>, newText = '': import("m2").Y | import("m2").Z''\<rparr>\<close>

definition ex_A :: TextChange where
  \<open>ex_A = \<lparr>span = \<lparr>start = 39, length' = 0\<rparr>, newText = '': import("m1").X''\<rparr>\<close>

definition ex_B2 :: TextChange where
  \<open>ex_B2 = \<lparr>span = \<lparr>start = 26, length' = 0\<rparr>,
             newText = '': import("m2").Y | import("m1").X | import("m1").W''\<rparr>\<close>



definition ex_withimport :: string where
  \<open>ex_withimport = ''import {A} from 'a';\<newline>export const f = g();''\<close>

definition ex_annot2 :: TextChange where
  \<open>ex_annot2 = \<lparr>span = \<lparr>start = 35, length' = 0\<rparr>, newText = '': import("pkg/mod").Foo''\<rparr>\<close>

text \<open>
  A stand-in for the parser on texts that start with a JSX-runtime import line and hold
  no other import declaration (that line ends at offset 40, its type-only form at 45),
  and on texts with no import declaration at all.
\<close>

definition ex_import_parser :: "string \<Rightarrow> int list" where
  \<open>ex_import_parser text =
     (case stripPrefix ''import { JSX } from 'react/jsx-runtime';'' text of
        Some _ \<Rightarrow> [40]
      | None \<Rightarrow>
          (case stripPrefix ''import { type JSX } from 'react/jsx-runtime';'' text of
             Some _ \<Rightarrow> [45]
           | None \<Rightarrow> []))\<close>

definition ex_jsxfile :: string where
  \<open>ex_jsxfile = ''import { JSX } from 'react/jsx-runtime';\<newline>export const f = g();''\<close>

definition ex_jsx_annot :: TextChange where
  \<open>ex_jsx_annot = \<lparr>span = \<lparr>start = 55, length' = 0\<rparr>, newText = '': import("pkg/mod").Foo''\<rparr>\<close>

definition ex_jsxfile2 :: string where
  \<open>ex_jsxfile2 = ''import { type JSX } from 'react/jsx-runtime';\<newline>export const h = k();''\<close>

definition ex_jsx_annot2 :: TextChange where
  \<open>ex_jsx_annot2 = \<lparr>span = \<lparr>start = 60, length' = 0\<rparr>, newText = '': import("lib/x").Bar''\<rparr>\<close>

definition ex_fix :: "string \<Rightarrow> TextChange list list" where
  "ex_fix p = (if p = ''a.ts'' then [[\<lparr>span = \<lparr>start = 0, length' = 0\<rparr>, newText = ''x''\<rparr>]]
               else if p = ''b.ts'' then []
               else if p = ''c.ts'' then [[], []]
               else [[\<lparr>span = \<lparr>start = 1, length' = 0\<rparr>, newText = ''y''\<rparr>]])"

definition ex_src :: "string \<Rightarrow> SourceFile" where
  "ex_src p = \<lparr>fileName = p, isDeclarationFile = False\<rparr>"

definition ex_file6 :: string where
  \<open>ex_file6 = ''import {A} from 'a';\<newline>let p: import("m").T = f();\<newline>let q: import("m").T = g();''\<close>

definition ex_edits6 :: "TextChange list" where
  \<open>ex_edits6 = [\<lparr>span = \<lparr>start = 28, length' = 13\<rparr>, newText = ''import("n").U''\<rparr>,
                 \<lparr>span = \<lparr>start = 56, length' = 13\<rparr>, newText = ''import("n").V''\<rparr>]\<close>

definition ex_file4 :: string where
  \<open>ex_file4 = ''import {A} from 'a';\<newline>let p: import("m").T = f();''\<close>

definition ex_edits4 :: "TextChange list" where
  \<open>ex_edits4 = [\<lparr>span = \<lparr>start = 28, length' = 13\<rparr>, newText = ''import("n").U''\<rparr>]\<close>

section \<open>Facts about the string operations\<close>

lemma substring_from_0: "substring s 0 b = take (nat b) s"
  by (auto simp: substring_def Let_def min_def max_def)

lemma substringFrom_drop: "substringFrom s a = drop (nat a) s"
  by (auto simp: substringFrom_def substring_def Let_def min_def max_def)

lemma splice_take_drop:
  "splice fileText st en u = take (nat st) fileText @ u @ drop (nat en) fileText"
  by (simp add: splice_def substring_from_0 substringFrom_drop)

lemma plainLoop_append: "plainLoop (xs @ ys) fileText = plainLoop ys (plainLoop xs fileText)"
  by (induction xs arbitrary: fileText) auto

lemma removeJsxImports_id: "\<not> hasJsxImport s \<Longrightarrow> removeJsxImports s = s"
  by (induction s) auto

section \<open>Edits in ascending order: the loop against the left-to-right reconstruction\<close>

lemma inOrder_le: "inOrder T p es \<Longrightarrow> p \<le> int (length T)"
proof (induction es arbitrary: p)
  case Nil
  then show ?case by simp
next
  case (Cons c es)
  from Cons.prems have "inOrder T (spanEnd c) es" and "p \<le> spanEnd c"
    by (simp_all add: spanEnd_def)
  with Cons.IH [of "spanEnd c"] show ?case by simp
qed

lemma inOrder_lower: "inOrder T p es \<Longrightarrow> c \<in> set es \<Longrightarrow> p \<le> start (span c)"
proof (induction es arbitrary: p)
  case Nil
  then show ?case by simp
next
  case (Cons d es)
  show ?case
  proof (cases "c = d")
    case True
    with Cons.prems show ?thesis by simp
  next
    case False
    with Cons.prems have "c \<in> set es" "inOrder T (spanEnd d) es" "p \<le> spanEnd d"
      by (simp_all add: spanEnd_def)
    with Cons.IH [of "spanEnd d"] show ?thesis by simp
  qed
qed

lemma inOrder_sorted: "inOrder T p es \<Longrightarrow> sorted (map (\<lambda>c. start (span c)) es)"
proof (induction es arbitrary: p)
  case Nil
  then show ?case by simp
next
  case (Cons c es)
  then have io: "inOrder T (spanEnd c) es" and le: "start (span c) \<le> spanEnd c"
    by (simp_all add: spanEnd_def)
  have "start (span c) \<le> start (span d)" if "d \<in> set es" for d
    using inOrder_lower [OF io that] le by simp
  with Cons.IH [OF io] show ?case by simp
qed

text \<open>
  The invariant of the right-to-left loop: once the edits \<open>es\<close> are applied, the text is
  the untouched prefix of \<open>T\<close> up to any offset \<open>p\<close> at or before the first of them,
  followed by the reconstruction from \<open>p\<close> on.
\<close>

lemma plainLoop_inOrder:
  "inOrder T p es \<Longrightarrow> 0 \<le> p \<Longrightarrow> plainLoop (rev es) T = take (nat p) T @ spliceSorted T p es"
proof (induction es arbitrary: p)
  case Nil
  then show ?case by simp
next
  case (Cons c es)
  let ?s = "start (span c)" and ?e = "spanEnd c"
  from Cons.prems have ord: "p \<le> ?s" "?s \<le> ?e" "inOrder T ?e es" "0 \<le> ?e"
    by (auto simp: spanEnd_def)
  then have le: "?e \<le> int (length T)" by (auto dest: inOrder_le)
  have R: "plainLoop (rev es) T = take (nat ?e) T @ spliceSorted T ?e es"
    using Cons.IH ord by simp
  have len: "length (take (nat ?e) T) = nat ?e" using le ord by simp
  have a: "take (nat ?s) (take (nat ?e) T @ spliceSorted T ?e es) = take (nat ?s) T"
  proof -
    have "nat ?s \<le> nat ?e" using ord by simp
    then show ?thesis using len by (simp add: min_def)
  qed
  have b: "drop (nat ?e) (take (nat ?e) T @ spliceSorted T ?e es) = spliceSorted T ?e es"
    using len by simp
  have c: "take (nat p) T @ gap T p ?s = take (nat ?s) T"
  proof -
    have "nat ?s = nat p + nat (?s - p)" using ord Cons.prems by simp
    then show ?thesis by (simp add: gap_def take_add)
  qed
  have "plainLoop (rev (c # es)) T = splice (plainLoop (rev es) T) ?s ?e (newText c)"
    by (simp add: plainLoop_append spanEnd_def)
  also have "\<dots> = take (nat ?s) T @ newText c @ spliceSorted T ?e es"
    unfolding R splice_take_drop a b ..
  also have "\<dots> = take (nat p) T @ spliceSorted T p (c # es)"
    using c by (simp flip: append_assoc)
  finally show ?case .
qed

lemma reconstruct_inOrder: "inOrder T 0 es \<Longrightarrow> reconstruct T es = spliceSorted T 0 es"
  by (simp add: reconstruct_def inOrder_sorted sort_key_id_if_sorted)

lemma noFixup_reconstruct:
  "inOrder T 0 es \<Longrightarrow> applyTextChangesNoFixup T es = reconstruct T es"
  using plainLoop_inOrder [of T 0 es]
  by (simp add: reconstruct_inOrder applyTextChangesNoFixup_def)

text \<open>
  When no replacement text holds a match of the pattern, the full loop splices every
  \<^verbatim>\<open>newText\<close> as it is and records nothing, whatever \<^verbatim>\<open>test\<close> answers.
\<close>

lemma regexTest_False: "regexTest s li = (False, li') \<Longrightarrow> li' = 0"
  by (auto simp: regexTest_def split: option.splits)

lemma editLoop_no_refs:
  "\<forall>c \<in> set cs. regexExecFrom (newText c) 0 = None \<Longrightarrow>
   \<exists>li'. editLoop cs (ft, imps, li) = (Inr (plainLoop cs ft, imps), li')"
proof (induction cs arbitrary: ft li)
  case Nil
  then show ?case by simp
next
  case (Cons c cs)
  let ?old = "substring ft (start (span c)) (start (span c) + length' (span c))"
  from Cons.prems have none: "matchAll (newText c) 0 = []"
    by (simp add: matchAll.simps [of "newText c" 0])
  obtain b l1 where t: "regexTest ?old li = (b, l1)"
    by (cases "regexTest ?old li")
  have "editStep c (ft, imps, li) =
          (Inr (splice ft (start (span c)) (start (span c) + length' (span c)) (newText c), imps), l1)"
    using t none
    by (cases b) (auto simp: editStep_def Let_def applyTextChangesNoFixup_def dest: regexTest_False)
  then show ?case using Cons.IH [of _ l1] Cons.prems by simp
qed

section \<open>C1: the edits against the reconstruction\<close>

lemma ex_sorted_reconstruct: "reconstruct ''abcd'' ex_sorted = ''YYbXd''"
  by code_simp

text \<open>
  C1, as the code has it. The loop of \<^verbatim>\<open>applyTextChanges\<close> takes the edits from the
  last of the list to the first and never sorts them. For edits listed in ascending span
  order (each span ending at or before the start of the next one, all inside the text),
  \<^verbatim>\<open>applyTextChanges(T, edits, false)\<close> is the concatenation, in ascending span order, of
  the untouched gaps of \<open>T\<close> and the replacement texts; and so is
  \<^verbatim>\<open>applyTextChanges(T, edits)\<close> when no replacement text holds a match of
  \<^verbatim>\<open>dynamicTypeRegex\<close> and the reconstructed text holds no JSX import line.
\<close>

theorem applyTextChanges_reconstruct:
  assumes "inOrder T 0 edits"
  shows "applyTextChanges importEnds lastIndex T edits False
           = (Inr (reconstruct T edits), lastIndex) \<and>
         (list_all (\<lambda>c. regexExecFrom (newText c) 0 = None) edits \<and>
          \<not> hasJsxImport (reconstruct T edits)
            \<longrightarrow> fst (applyTextChanges importEnds lastIndex T edits True)
                  = Inr (reconstruct T edits))"
proof (intro conjI impI)
  show "applyTextChanges importEnds lastIndex T edits False
          = (Inr (reconstruct T edits), lastIndex)"
    using assms by (simp add: applyTextChanges_def noFixup_reconstruct)
next
  assume h: "list_all (\<lambda>c. regexExecFrom (newText c) 0 = None) edits \<and>
             \<not> hasJsxImport (reconstruct T edits)"
  then have "\<forall>c \<in> set (rev edits). regexExecFrom (newText c) 0 = None"
    by (simp add: list_all_iff)
  from editLoop_no_refs [OF this, of T "[]" lastIndex]
  obtain li' where
    "editLoop (rev edits) (T, [], lastIndex) = (Inr (plainLoop (rev edits) T, []), li')"
    by blast
  moreover have "plainLoop (rev edits) T = reconstruct T edits"
    using noFixup_reconstruct [OF assms] by (simp add: applyTextChangesNoFixup_def)
  ultimately show "fst (applyTextChanges importEnds lastIndex T edits True)
                     = Inr (reconstruct T edits)"
    using h by (simp add: applyTextChanges_def insertImports_def removeJsxImports_id)
qed

theorem applyTextChanges_reconstruct_witness:
  "inOrder ''abcd'' 0 ex_sorted \<and>
   applyTextChanges (\<lambda>_. []) 0 ''abcd'' ex_sorted False = (Inr ''YYbXd'', 0) \<and>
   fst (applyTextChanges (\<lambda>_. []) 0 ''abcd'' ex_sorted True) = Inr ''YYbXd''"
proof -
  have h: "inOrder ''abcd'' 0 ex_sorted" by code_simp
  have n: "list_all (\<lambda>c. regexExecFrom (newText c) 0 = None) ex_sorted" by code_simp
  have j: "\<not> hasJsxImport ''YYbXd''" by code_simp
  show ?thesis
    using h n j applyTextChanges_reconstruct [OF h, of "\<lambda>_. []" 0]
    by (simp add: ex_sorted_reconstruct)
qed

text \<open>
  The claim as stated fails for a list that is not in ascending order: on \<open>abcd\<close> with
  the non-overlapping edits (2, 1, X) and (0, 1, YY), in this order, the reconstruction
  is \<open>YYbXd\<close> and the code returns \<open>YYXcd\<close>.
\<close>

theorem applyTextChanges_reconstruct_counterexample:
  "nonOverlapping ''abcd'' ex_unsorted \<and>
   reconstruct ''abcd'' ex_unsorted = ''YYbXd'' \<and>
   fst (applyTextChanges (\<lambda>_. []) 0 ''abcd'' ex_unsorted True) = Inr ''YYXcd'' \<and>
   fst (applyTextChanges (\<lambda>_. []) 0 ''abcd'' ex_unsorted True)
     \<noteq> Inr (reconstruct ''abcd'' ex_unsorted)"
  by code_simp

section \<open>C3: no edits\<close>

text \<open>
  C3, as the code has it. With an empty list of edits \<^verbatim>\<open>applyTextChanges(T, [])\<close>
  still runs the cleanup of line 186, so it returns \<open>T\<close> unchanged for every text \<open>T\<close>
  that holds no JSX import line, and leaves \<^verbatim>\<open>lastIndex\<close> as it was.
\<close>

theorem applyTextChanges_empty:
  "\<not> hasJsxImport T \<Longrightarrow>
   applyTextChanges importEnds lastIndex T [] True = (Inr T, lastIndex)"
  by (simp add: applyTextChanges_def insertImports_def removeJsxImports_id)

theorem applyTextChanges_empty_witness:
  \<open>\<not> hasJsxImport ''const a = 1;'' \<and>
   applyTextChanges (\<lambda>_. []) 0 ''const a = 1;'' [] True = (Inr ''const a = 1;'', 0)\<close>
proof -
  have h: \<open>\<not> hasJsxImport ''const a = 1;''\<close> by code_simp
  show ?thesis using h applyTextChanges_empty [OF h, of "\<lambda>_. []" 0] by simp
qed

text \<open>
  The claim as stated fails on a text with a JSX import line: the line is removed
  although there is no edit.
\<close>

theorem applyTextChanges_empty_counterexample:
  \<open>fst (applyTextChanges (\<lambda>_. []) 0
          ''import { JSX } from 'react/jsx-runtime';\<newline>let a;'' [] True)
     = Inr ''let a;'' \<and>
   fst (applyTextChanges (\<lambda>_. []) 0
          ''import { JSX } from 'react/jsx-runtime';\<newline>let a;'' [] True)
     \<noteq> Inr ''import { JSX } from 'react/jsx-runtime';\<newline>let a;''\<close>
  by code_simp

section \<open>Facts about the pattern and its matches\<close>

lemma stripPrefix_Some: "stripPrefix p s = Some r \<Longrightarrow> s = p @ r"
  by (induction p s rule: stripPrefix.induct) (auto split: if_splits)

lemma dynamicTypeRegexAt_Some:
  assumes "dynamicTypeRegexAt s i = Some (j, mt, m, t)"
  shows "j = i \<and> m \<noteq> [] \<and> t \<noteq> [] \<and> mt \<noteq> [] \<and> (\<exists>rest. drop i s = mt @ rest)"
proof -
  from assms obtain r1 r3 where
    p1: \<open>stripPrefix ''import("'' (drop i s) = Some r1\<close> and
    m: "m = takeWhile (\<lambda>c. c \<noteq> dq) r1" "m \<noteq> []" and
    p2: \<open>stripPrefix ''").'' (dropWhile (\<lambda>c. c \<noteq> dq) r1) = Some r3\<close> and
    t: "t = takeWhile isWordChar r3" "t \<noteq> []" and
    mt: \<open>mt = ''import("'' @ m @ ''").'' @ t\<close> and j: "j = i"
    by (auto simp: dynamicTypeRegexAt_def Let_def split: if_splits option.splits)
  have \<open>drop i s = ''import("'' @ r1\<close> using p1 by (rule stripPrefix_Some)
  moreover have "r1 = m @ dropWhile (\<lambda>c. c \<noteq> dq) r1" using m by simp
  moreover have \<open>dropWhile (\<lambda>c. c \<noteq> dq) r1 = ''").'' @ r3\<close> using p2 by (rule stripPrefix_Some)
  moreover have "r3 = t @ dropWhile isWordChar r3" using t by simp
  ultimately have \<open>drop i s = (''import("'' @ m @ ''").'' @ t) @ dropWhile isWordChar r3\<close>
    by (metis append.assoc)
  then have "drop i s = mt @ dropWhile isWordChar r3" unfolding mt .
  then have "\<exists>rest. drop i s = mt @ rest" by blast
  moreover have "mt \<noteq> []" using mt by simp
  ultimately show ?thesis using m t j by simp
qed

lemma regexExecFrom_Some:
  "regexExecFrom s li = Some (i, mt, m, t) \<Longrightarrow>
   li \<le> i \<and> m \<noteq> [] \<and> t \<noteq> [] \<and> mt \<noteq> [] \<and> i + length mt \<le> length s"
proof (induction s li rule: regexExecFrom.induct)
  case (1 s k)
  show ?case
  proof (cases "dynamicTypeRegexAt s k")
    case None
    with 1 show ?thesis
      by (auto simp: regexExecFrom.simps [of s k] split: if_splits)
  next
    case (Some r)
    with "1.prems" have at: "dynamicTypeRegexAt s k = Some (i, mt, m, t)" and k: "k \<le> length s"
      by (auto simp: regexExecFrom.simps [of s k] split: if_splits)
    from dynamicTypeRegexAt_Some [OF at] obtain rest where
      f: "i = k" "m \<noteq> []" "t \<noteq> []" "mt \<noteq> []" "drop k s = mt @ rest" by auto
    from f(5) have "length (drop k s) = length mt + length rest" by simp
    then have "k + length mt \<le> length s" using k by simp
    with f show ?thesis by simp
  qed
qed

lemma regexExecFrom_None_later:
  "regexExecFrom s i = None \<Longrightarrow> i \<le> j \<Longrightarrow> regexExecFrom s j = None"
proof (induction s i rule: regexExecFrom.induct)
  case (1 s i)
  show ?case
  proof (cases "length s < i")
    case True
    with "1.prems" show ?thesis by (simp add: regexExecFrom.simps [of s j])
  next
    case False
    with "1.prems" have at: "dynamicTypeRegexAt s i = None" and nx: "regexExecFrom s (Suc i) = None"
      by (auto simp: regexExecFrom.simps [of s i] split: option.splits)
    show ?thesis
    proof (cases "i = j")
      case True
      with "1.prems" show ?thesis by simp
    next
      case ne: False
      with "1.prems" have "Suc i \<le> j" by simp
      with "1.IH" [OF False at nx] show ?thesis .
    qed
  qed
qed

lemma matchLoop_ok:
  "\<forall>(i, mt, m, t) \<in> set ms. m \<noteq> [] \<and> t \<noteq> [] \<Longrightarrow>
   matchLoop ms imps changes = Inr (recordMatches imps ms, changes @ map matchChange ms)"
  by (induction ms imps changes rule: matchLoop.induct)
     (auto simp: recordMatches_def matchChange_def)

lemma matchAll_groups:
  "(i, mt, m, t) \<in> set (matchAll s li) \<Longrightarrow> m \<noteq> [] \<and> t \<noteq> []"
proof (induction s li rule: matchAll.induct)
  case (1 s li)
  show ?case
  proof (cases "regexExecFrom s li")
    case None
    with "1.prems" show ?thesis by (simp add: matchAll.simps [of s li])
  next
    case (Some r)
    obtain i' mt' m' t' where r: "r = (i', mt', m', t')" by (cases r) auto
    from regexExecFrom_Some [OF Some [unfolded r]] have ne: "m' \<noteq> []" "t' \<noteq> []" by auto
    from "1.prems" Some r have
      "(i, mt, m, t) = (i', mt', m', t') \<or>
       (i, mt, m, t) \<in> set (matchAll s (if mt' = [] then Suc (i' + length mt') else i' + length mt'))"
      by (simp add: matchAll.simps [of s li])
    then show ?thesis
    proof
      assume "(i, mt, m, t) = (i', mt', m', t')"
      with ne show ?thesis by simp
    next
      assume "(i, mt, m, t) \<in> set (matchAll s (if mt' = [] then Suc (i' + length mt') else i' + length mt'))"
      with "1.IH" [OF Some [unfolded r] refl refl refl] show ?thesis by simp
    qed
  qed
qed

lemma matchAll_inOrder:
  "p \<le> int li \<Longrightarrow> li \<le> length s \<Longrightarrow> inOrder s p (map matchChange (matchAll s li))"
proof (induction s li arbitrary: p rule: matchAll.induct)
  case (1 s li)
  show ?case
  proof (cases "regexExecFrom s li")
    case None
    with "1.prems" show ?thesis by (simp add: matchAll.simps [of s li])
  next
    case (Some r)
    obtain i' mt' m' t' where r: "r = (i', mt', m', t')" by (cases r) auto
    from regexExecFrom_Some [OF Some [unfolded r]]
    have f: "li \<le> i'" "mt' \<noteq> []" "i' + length mt' \<le> length s" by auto
    have "inOrder s (int (i' + length mt')) (map matchChange (matchAll s (i' + length mt')))"
      using "1.IH" [OF Some [unfolded r] refl refl refl, of "int (i' + length mt')"] f by simp
    then show ?thesis
      using Some r f "1.prems"
      by (simp add: matchAll.simps [of s li] matchChange_def spanEnd_def)
  qed
qed

section \<open>The pattern under the backtracking rules of ECMAScript\<close>

text \<open>
  \<open>dynamicTypeRegexAt\<close> reads the pattern from left to right and never goes back.
  \<open>dynamicTypeRegexSem\<close> is the pattern written out as the pieces of the regular
  expression, under the backtracking semantics of the language specification. This
  section proves that both agree.
\<close>

text \<open>
  The greedy loop returns what the continuation gives at the end of the longest run of
  the class when the continuation fails at every earlier offset of that run.
\<close>

lemma star_run:
  assumes "\<forall>k < n. c (i + k) = None"
    and "\<forall>k < n. i + k < length s \<and> P (s ! (i + k))"
    and "\<not> (i + n < length s \<and> P (s ! (i + n)))"
  shows "greedyStar P c s i = c (i + n)"
  using assms
proof (induction n arbitrary: i)
  case 0
  then show ?case by (auto simp: greedyStar.simps [of P c s i])
next
  case (Suc n)
  have here: "i < length s \<and> P (s ! i)" using Suc.prems(2) by (metis add.right_neutral zero_less_Suc)
  have ci: "c i = None" using Suc.prems(1) by (metis add.right_neutral zero_less_Suc)
  have "greedyStar P c s (Suc i) = c (Suc i + n)"
  proof (rule Suc.IH)
    show "\<forall>k<n. c (Suc i + k) = None" using Suc.prems(1) by (metis add_Suc_shift Suc_less_eq)
    show "\<forall>k<n. Suc i + k < length s \<and> P (s ! (Suc i + k))"
      using Suc.prems(2) by (metis add_Suc_shift Suc_less_eq)
    show "\<not> (Suc i + n < length s \<and> P (s ! (Suc i + n)))" using Suc.prems(3) by simp
  qed
  then show ?case using here ci
    by (cases "c (i + Suc n)") (simp_all add: greedyStar.simps [of P c s i])
qed

lemma takeWhile_run:
  assumes "k < length (takeWhile P (drop i s))"
  shows "i + k < length s \<and> P (s ! (i + k))"
proof -
  have le: "length (takeWhile P (drop i s)) \<le> length (drop i s)"
    by (rule length_takeWhile_le)
  then have lt: "i + k < length s" using assms by simp
  have "takeWhile P (drop i s) ! k = drop i s ! k"
    using assms by (rule takeWhile_nth)
  moreover have "takeWhile P (drop i s) ! k \<in> set (takeWhile P (drop i s))"
    using assms by simp
  then have "P (takeWhile P (drop i s) ! k)" by (rule set_takeWhileD [THEN conjunct2])
  ultimately show ?thesis using lt by simp
qed

lemma takeWhile_stop:
  "\<not> (i + length (takeWhile P (drop i s)) < length s \<and>
       P (s ! (i + length (takeWhile P (drop i s)))))"
proof
  assume a: "i + length (takeWhile P (drop i s)) < length s \<and>
             P (s ! (i + length (takeWhile P (drop i s))))"
  then have "length (takeWhile P (drop i s)) < length (drop i s)" by (simp add: less_diff_conv add.commute)
  then have "\<not> P (drop i s ! length (takeWhile P (drop i s)))"
    by (rule nth_length_takeWhile)
  with a show False by simp
qed

lemma plus_run:
  assumes "\<forall>k. 1 \<le> k \<and> k < length (takeWhile P (drop i s)) \<longrightarrow> c (i + k) = None"
  shows "greedyPlus P c s i =
           (if length (takeWhile P (drop i s)) = 0 then None
            else c (i + length (takeWhile P (drop i s))))"
proof (cases "length (takeWhile P (drop i s))")
  case 0
  with takeWhile_stop [of i P s] show ?thesis by (auto simp: greedyPlus_def)
next
  case (Suc n)
  then have here: "i < length s \<and> P (s ! i)"
    using takeWhile_run [of 0 P i s] by simp
  have "greedyStar P c s (Suc i) = c (Suc i + n)"
  proof (rule star_run)
    show "\<forall>k<n. c (Suc i + k) = None"
      using assms Suc by (metis Suc_less_eq add_Suc_shift le_add1 plus_1_eq_Suc)
    show "\<forall>k<n. Suc i + k < length s \<and> P (s ! (Suc i + k))"
      using takeWhile_run [of _ P i s] Suc by (metis Suc_less_eq add_Suc_shift)
    show "\<not> (Suc i + n < length s \<and> P (s ! (Suc i + n)))"
      using takeWhile_stop [of i P s] Suc by simp
  qed
  with here Suc show ?thesis by (simp add: greedyPlus_def)
qed

lemma drop_wordHere:
  "(case drop i s of [] \<Rightarrow> False | c # _ \<Rightarrow> isWordChar c) = wordAt s i"
proof (cases "i < length s")
  case True
  then have "drop i s = s ! i # drop (Suc i) s" by (simp add: Cons_nth_drop_Suc)
  with True show ?thesis by (simp add: wordAt_def)
next
  case False
  then show ?thesis by (simp add: wordAt_def)
qed

lemma run_lit:
  "runPattern (map Ch lit @ r) s (i, caps) =
     (case stripPrefix lit (drop i s) of
        None \<Rightarrow> None
      | Some _ \<Rightarrow> runPattern r s (i + length lit, caps))"
proof (induction lit arbitrary: i)
  case Nil
  then show ?case by simp
next
  case (Cons ch lit)
  show ?case
  proof (cases "i < length s")
    case True
    then have d: "drop i s = s ! i # drop (Suc i) s" by (simp add: Cons_nth_drop_Suc)
    show ?thesis using True Cons.IH [of "Suc i"] by (auto simp: d split: option.splits)
  next
    case False
    then show ?thesis by simp
  qed
qed

lemma stripPrefix_drop:
  "stripPrefix lit (drop i s) = Some r \<Longrightarrow> r = drop (i + length lit) s"
proof -
  assume "stripPrefix lit (drop i s) = Some r"
  then have "drop i s = lit @ r" by (rule stripPrefix_Some)
  then have "drop (length lit) (drop i s) = r" by simp
  then show ?thesis by (simp add: add.commute)
qed

lemma run_tail:
  "runPattern [Mark, Plus isWordChar, Mark, Boundary] s (c, caps) =
     (if length (takeWhile isWordChar (drop c s)) = 0 then None
      else Some (c + length (takeWhile isWordChar (drop c s)),
                 caps @ [c, c + length (takeWhile isWordChar (drop c s))]))"
proof -
  let ?n = "length (takeWhile isWordChar (drop c s))"
  let ?k = "\<lambda>j. runPattern [Mark, Boundary] s (j, caps @ [c])"
  have k: "?k j = (if isBoundary s j then Some (j, caps @ [c, j]) else None)" for j
    by simp
  have inner: "\<forall>k. 1 \<le> k \<and> k < ?n \<longrightarrow> ?k (c + k) = None"
  proof (intro allI impI)
    fix k assume h: "1 \<le> k \<and> k < ?n"
    then have "k - 1 < ?n" by arith
    from takeWhile_run [OF this] h have "wordAt s (c + k - 1)"
      by (simp add: wordAt_def)
    moreover from takeWhile_run [of k isWordChar c s] h have "wordAt s (c + k)"
      by (simp add: wordAt_def)
    ultimately have "\<not> isBoundary s (c + k)" using h by (simp add: isBoundary_def)
    then show "?k (c + k) = None" unfolding k by simp
  qed
  have last: "isBoundary s (c + ?n)" if "?n \<noteq> 0"
  proof -
    from that have "?n - 1 < ?n" by simp
    from takeWhile_run [OF this] that have "wordAt s (c + ?n - 1)"
      by (simp add: wordAt_def)
    moreover from takeWhile_stop [of c isWordChar s] have "\<not> wordAt s (c + ?n)"
      by (simp add: wordAt_def)
    ultimately show ?thesis using that by (simp add: isBoundary_def)
  qed
  have "runPattern [Mark, Plus isWordChar, Mark, Boundary] s (c, caps) = greedyPlus isWordChar ?k s c"
    by simp
  also have "\<dots> = (if ?n = 0 then None else ?k (c + ?n))"
    by (rule plus_run [OF inner])
  also have "\<dots> = (if ?n = 0 then None else Some (c + ?n, caps @ [c, c + ?n]))"
    using last unfolding k by simp
  finally show ?thesis .
qed

lemma run_mid:
  "runPattern (Mark # Plus (\<lambda>c. c \<noteq> dq) # Mark # map Ch (dq # l2) @ rest) s (a, caps) =
     (if length (takeWhile (\<lambda>c. c \<noteq> dq) (drop a s)) = 0 then None
      else (case stripPrefix (dq # l2)
                   (drop (a + length (takeWhile (\<lambda>c. c \<noteq> dq) (drop a s))) s) of
              None \<Rightarrow> None
            | Some _ \<Rightarrow>
                runPattern rest s
                  (a + length (takeWhile (\<lambda>c. c \<noteq> dq) (drop a s)) + length (dq # l2),
                   caps @ [a, a + length (takeWhile (\<lambda>c. c \<noteq> dq) (drop a s))])))"
proof -
  let ?P = "\<lambda>c. c \<noteq> dq"
  let ?n = "length (takeWhile ?P (drop a s))"
  let ?k = "\<lambda>j. runPattern (Mark # map Ch (dq # l2) @ rest) s (j, caps @ [a])"
  have k: "?k j = (case stripPrefix (dq # l2) (drop j s) of
                     None \<Rightarrow> None
                   | Some _ \<Rightarrow> runPattern rest s (j + length (dq # l2), caps @ [a, j]))" for j
  proof -
    have "?k j = runPattern (map Ch (dq # l2) @ rest) s (j, caps @ [a, j])"
      by (simp only: runPattern.simps node.case prod.case append_assoc append_Cons append_Nil)
    then show ?thesis by (simp only: run_lit)
  qed
  have inner: "\<forall>k. 1 \<le> k \<and> k < ?n \<longrightarrow> ?k (a + k) = None"
  proof (intro allI impI)
    fix k assume h: "1 \<le> k \<and> k < ?n"
    from takeWhile_run [of k ?P a s] h have lt: "a + k < length s" and ne: "s ! (a + k) \<noteq> dq"
      by simp_all
    from lt have "drop (a + k) s = s ! (a + k) # drop (Suc (a + k)) s"
      by (simp add: Cons_nth_drop_Suc)
    then have "stripPrefix (dq # l2) (drop (a + k) s) = None" using ne by simp
    then show "?k (a + k) = None" unfolding k by simp
  qed
  have "runPattern (Mark # Plus ?P # Mark # map Ch (dq # l2) @ rest) s (a, caps) = greedyPlus ?P ?k s a"
    by simp
  also have "\<dots> = (if ?n = 0 then None else ?k (a + ?n))"
    by (rule plus_run [OF inner])
  finally show ?thesis unfolding k .
qed

lemma wordBefore_eq:
  "(0 < i \<and> i \<le> length s \<and> isWordChar (s ! (i - 1))) = (0 < i \<and> wordAt s (i - 1))"
  by (cases i) (auto simp: wordAt_def)

lemma takeWhile_slice: "slice s a (a + length (takeWhile P (drop a s))) = takeWhile P (drop a s)"
  unfolding slice_def using takeWhile_eq_take [of P "drop a s"] by simp

lemma take_length_append: "take (length w) (w @ r) = w"
  by simp

text \<open>
  The direct matcher \<open>dynamicTypeRegexAt\<close> gives, at every offset of every text, what
  the backtracking matcher gives.
\<close>

theorem dynamicTypeRegexAt_is_backtracking:
  "dynamicTypeRegexAt s i = dynamicTypeRegexSem s i"
proof -
  let ?l1 = \<open>''import("''\<close> and ?l2 = \<open>''").''\<close> and ?P = "\<lambda>c. c \<noteq> dq"
  define a where "a = i + length ?l1"
  define m where "m = takeWhile ?P (drop a s)"
  define b where "b = a + length m"
  define c where "c = b + length ?l2"
  define t where "t = takeWhile isWordChar (drop c s)"
  define d where "d = c + length t"
  define ok where "ok \<longleftrightarrow> isBoundary s i \<and> stripPrefix ?l1 (drop i s) \<noteq> None \<and> m \<noteq> [] \<and>
                          stripPrefix ?l2 (drop b s) \<noteq> None \<and> t \<noteq> []"
  have l2: \<open>?l2 = dq # '').''\<close> by (simp add: dq_def)
  have pat: "dynamicTypePattern =
               Boundary # (map Ch ?l1 @
                 (Mark # Plus ?P # Mark # map Ch (dq # '').'') @ [Mark, Plus isWordChar, Mark, Boundary]))"
    unfolding dynamicTypePattern_def l2 by (simp only: append_Cons append_Nil)
  have "runPattern dynamicTypePattern s (i, []) =
          (if isBoundary s i
           then runPattern (map Ch ?l1 @
                 (Mark # Plus ?P # Mark # map Ch (dq # '').'') @ [Mark, Plus isWordChar, Mark, Boundary]))
                  s (i, [])
           else None)"
    unfolding pat by (simp only: runPattern.simps node.case prod.case)
  also have "\<dots> = (if ok then Some (d, [a, b, c, d]) else None)"
    unfolding run_lit run_mid run_tail
    unfolding l2 [symmetric] a_def [symmetric] m_def [symmetric] b_def [symmetric]
    using c_def d_def t_def ok_def
    by (auto split: option.splits)
  finally have sem: "runPattern dynamicTypePattern s (i, []) = (if ok then Some (d, [a, b, c, d]) else None)" .
  have at: "dynamicTypeRegexAt s i = (if ok then Some (i, ?l1 @ m @ ?l2 @ t, m, t) else None)"
  proof (cases "stripPrefix ?l1 (drop i s)")
    case None
    then show ?thesis by (simp add: dynamicTypeRegexAt_def ok_def Let_def)
  next
    case (Some r1)
    then have r1: "r1 = drop a s" unfolding a_def by (rule stripPrefix_drop)
    have r2: "dropWhile ?P r1 = drop b s"
      unfolding r1 b_def m_def by (simp add: dropWhile_eq_drop add.commute)
    show ?thesis
    proof (cases "stripPrefix ?l2 (drop b s)")
      case None
      with Some r2 show ?thesis
        by (simp add: dynamicTypeRegexAt_def ok_def Let_def)
    next
      case (Some r3)
      then have r3: "r3 = drop c s" unfolding c_def by (rule stripPrefix_drop)
      have bd: "((0 < i \<and> i \<le> length s \<and> isWordChar (s ! (i - 1)))
                  = (case drop i s of [] \<Rightarrow> False | c # _ \<Rightarrow> isWordChar c))
                = (\<not> isBoundary s i)"
        unfolding wordBefore_eq drop_wordHere isBoundary_def by blast
      show ?thesis
        unfolding dynamicTypeRegexAt_def Let_def bd
        using \<open>stripPrefix ?l1 (drop i s) = Some r1\<close> Some r2
        by (simp add: ok_def r1 [symmetric] m_def r3 t_def)
    qed
  qed
  show ?thesis
  proof (cases ok)
    case False
    then show ?thesis by (simp add: at dynamicTypeRegexSem_def sem)
  next
    case True
    then obtain r1 r3 where p1: "stripPrefix ?l1 (drop i s) = Some r1"
      and p2: "stripPrefix ?l2 (drop b s) = Some r3"
      unfolding ok_def by blast
    have e1: "drop i s = ?l1 @ drop a s"
      using stripPrefix_Some [OF p1] stripPrefix_drop [OF p1] by (simp add: a_def)
    have "drop b s = dropWhile ?P (drop a s)"
      by (simp add: dropWhile_eq_drop b_def m_def add.commute)
    then have e2: "drop a s = m @ drop b s"
      by (simp add: m_def)
    have e3: "drop b s = ?l2 @ drop c s"
      using stripPrefix_Some [OF p2] stripPrefix_drop [OF p2] by (simp add: c_def)
    have "drop d s = dropWhile isWordChar (drop c s)"
      by (simp add: dropWhile_eq_drop d_def t_def add.commute)
    then have e4: "drop c s = t @ drop d s"
      by (simp add: t_def)
    have all: "drop i s = (?l1 @ m @ ?l2 @ t) @ drop d s"
      using e1 e2 e3 e4 by simp
    have len: "d - i = length (?l1 @ m @ ?l2 @ t)"
      unfolding d_def c_def b_def a_def by simp
    have s0: "slice s i d = ?l1 @ m @ ?l2 @ t"
      unfolding slice_def len all by (rule take_length_append)
    have s1: "slice s a b = m" unfolding b_def m_def by (rule takeWhile_slice)
    have s2: "slice s c d = t" unfolding d_def t_def by (rule takeWhile_slice)
    show ?thesis using True by (simp add: at dynamicTypeRegexSem_def sem s0 s1 s2)
  qed
qed

section \<open>Facts about the import demand\<close>

lemma demanded_iff: "demanded imps m t \<longleftrightarrow> (\<exists>types. (m, types) \<in> set imps \<and> t \<in> set types)"
  by (auto simp: demanded_def list_ex_iff)

lemma demanded_addImport_same: "demanded (addImport imps m t) m t"
proof (cases "m \<in> fst ` set imps")
  case True
  then obtain types where "(m, types) \<in> set imps" by auto
  then have "(m, setAdd types t) \<in> set (addImport imps m t)"
    using True by (force simp: addImport_def)
  moreover have "t \<in> set (setAdd types t)" by (simp add: setAdd_def)
  ultimately show ?thesis unfolding demanded_iff by blast
next
  case False
  then have "(m, setAdd [] t) \<in> set (addImport imps m t)"
    by (simp add: addImport_def)
  moreover have "t \<in> set (setAdd [] t)" by (simp add: setAdd_def)
  ultimately show ?thesis unfolding demanded_iff by blast
qed

lemma addImport_set:
  "(\<lambda>(k, types). if k = m' then (k, setAdd types t') else (k, types)) ` set imps
     \<subseteq> set (addImport imps m' t')"
  unfolding addImport_def Let_def by (cases "m' \<in> fst ` set imps") auto

lemma demanded_addImport_keep:
  assumes "demanded imps m t"
  shows "demanded (addImport imps m' t') m t"
proof -
  from assms obtain types where in1: "(m, types) \<in> set imps" and t: "t \<in> set types"
    unfolding demanded_iff by blast
  let ?f = "\<lambda>(k, types). if k = m' then (k, setAdd types t') else (k, types)"
  have "?f (m, types) \<in> set (addImport imps m' t')"
    using in1 addImport_set [of m' t' imps] by blast
  moreover obtain types' where "?f (m, types) = (m, types')" "t \<in> set types'"
    using t by (cases "m = m'") (auto simp: setAdd_def)
  ultimately show ?thesis unfolding demanded_iff by auto
qed

lemma demanded_recordMatches_keep:
  "demanded imps m t \<Longrightarrow> demanded (recordMatches imps ms) m t"
proof (induction ms arbitrary: imps)
  case Nil
  then show ?case by (simp add: recordMatches_def)
next
  case (Cons x ms)
  obtain i' mt' m' t' where x: "x = (i', mt', m', t')" by (cases x) auto
  have unf: "recordMatches imps (x # ms) = recordMatches (addImport imps m' t') ms"
    by (simp add: recordMatches_def x)
  show ?case
    unfolding unf by (rule Cons.IH) (rule demanded_addImport_keep [OF Cons.prems])
qed

lemma demanded_recordMatches:
  "(i, mt, m, t) \<in> set ms \<Longrightarrow> demanded (recordMatches imps ms) m t"
proof (induction ms arbitrary: imps)
  case Nil
  then show ?case by simp
next
  case (Cons x ms)
  obtain i' mt' m' t' where x: "x = (i', mt', m', t')" by (cases x) auto
  have unf: "recordMatches imps (x # ms) = recordMatches (addImport imps m' t') ms"
    by (simp add: recordMatches_def x)
  show ?case
  proof (cases "(i, mt, m, t) = x")
    case True
    then have "m' = m" "t' = t" using x by auto
    then show ?thesis
      unfolding unf using demanded_recordMatches_keep [OF demanded_addImport_same] by simp
  next
    case False
    with Cons.prems have "(i, mt, m, t) \<in> set ms" by simp
    then show ?thesis unfolding unf by (rule Cons.IH)
  qed
qed

section \<open>One turn of the loop never throws\<close>

lemma matchAll_ok: "\<forall>(i, mt, m, t) \<in> set (matchAll s li). m \<noteq> [] \<and> t \<noteq> []"
proof -
  have "m \<noteq> [] \<and> t \<noteq> []" if "x \<in> set (matchAll s li)" "x = (i, mt, m, t)" for x i mt m t
    using that matchAll_groups [of i mt m t s li] by simp
  then show ?thesis by fastforce
qed

lemma editStep_unmatched:
  assumes "regexExecFrom (substring fileText (start (span c)) (spanEnd c)) li = None"
  shows "editStep c (fileText, imps, li) =
           (Inr (splice fileText (start (span c)) (spanEnd c)
                   (applyTextChangesNoFixup (newText c) (map matchChange (matchAll (newText c) 0))),
                 recordMatches imps (matchAll (newText c) 0)), 0)"
  using assms matchLoop_ok [OF matchAll_ok, of "newText c" 0 imps "[]"]
  by (simp add: editStep_def regexTest_def spanEnd_def Let_def)

lemma editStep_matched:
  assumes "regexExecFrom (substring fileText (start (span c)) (spanEnd c)) li = Some (i, mt, m, t)"
  shows "editStep c (fileText, imps, li) =
           (Inr (splice fileText (start (span c)) (spanEnd c) (newText c), imps), i + length mt)"
  using assms by (simp add: editStep_def regexTest_def spanEnd_def Let_def)

lemma editStep_ok: "\<exists>ft' imps' li'. editStep c (ft, imps, li) = (Inr (ft', imps'), li')"
proof (cases "regexExecFrom (substring ft (start (span c)) (spanEnd c)) li")
  case None
  from editStep_unmatched [OF this] show ?thesis by blast
next
  case (Some r)
  obtain i mt m t where "r = (i, mt, m, t)" by (cases r) auto
  with Some editStep_matched show ?thesis by blast
qed

lemma editLoop_ok: "\<exists>ft' imps' li'. editLoop cs (ft, imps, li) = (Inr (ft', imps'), li')"
proof (induction cs arbitrary: ft imps li)
  case Nil
  then show ?case by simp
next
  case (Cons c cs)
  from editStep_ok obtain ft1 imps1 li1 where
    "editStep c (ft, imps, li) = (Inr (ft1, imps1), li1)" by blast
  with Cons.IH [of ft1 imps1 li1] show ?case by simp
qed

section \<open>C5: rewriting the dynamic references of a replacement text\<close>

text \<open>
  C5, as the code has it. The pattern is \<^verbatim>\<open>import("<module>").<identifier>\<close> at a word
  boundary: the literal text \<^verbatim>\<open>import(\<close>, a non-empty module path in double quotes,
  \<^verbatim>\<open>).\<close>, and one identifier of letters, digits and underscore. For every edit whose
  old text holds no match of it, one turn of the loop splices in the \<^verbatim>\<open>newText\<close> with
  every match, found from the left without overlap, replaced by its identifier (the
  gaps between the matches are kept), records every (module, identifier) pair of these
  matches in the import demand, and leaves \<^verbatim>\<open>lastIndex\<close> at 0.
\<close>

theorem dynamic_reference_rewrite:
  assumes "regexExecFrom (substring fileText (start (span c)) (spanEnd c)) 0 = None"
  shows "editStep c (fileText, imps, lastIndex) =
           (Inr (splice fileText (start (span c)) (spanEnd c)
                   (spliceSorted (newText c) 0 (map matchChange (matchAll (newText c) 0))),
                 recordMatches imps (matchAll (newText c) 0)), 0) \<and>
         list_all (\<lambda>(index, matchText, m, t).
                     demanded (recordMatches imps (matchAll (newText c) 0)) m t)
           (matchAll (newText c) 0)"
proof
  have none: "regexExecFrom (substring fileText (start (span c)) (spanEnd c)) lastIndex = None"
    using assms by (rule regexExecFrom_None_later) simp
  have io: "inOrder (newText c) 0 (map matchChange (matchAll (newText c) 0))"
    by (rule matchAll_inOrder) simp_all
  show "editStep c (fileText, imps, lastIndex) =
           (Inr (splice fileText (start (span c)) (spanEnd c)
                   (spliceSorted (newText c) 0 (map matchChange (matchAll (newText c) 0))),
                 recordMatches imps (matchAll (newText c) 0)), 0)"
    unfolding editStep_unmatched [OF none] noFixup_reconstruct [OF io] reconstruct_inOrder [OF io] ..
  show "list_all (\<lambda>(index, matchText, m, t).
                     demanded (recordMatches imps (matchAll (newText c) 0)) m t)
           (matchAll (newText c) 0)"
    unfolding list_all_iff by (auto intro: demanded_recordMatches)
qed

lemma ex_rewrite_matches:
  \<open>matchAll (newText ex_rewrite) 0 = [(9, ''import("pkg/mod").Foo'', ''pkg/mod'', ''Foo'')]\<close>
  by code_simp

text \<open>
  The witness is the claim's example with \<^verbatim>\<open>import\<close> in it:
  \<^verbatim>\<open>const x: import("pkg/mod").Foo = y;\<close> becomes \<^verbatim>\<open>const x: Foo = y;\<close> and
  \<^verbatim>\<open>pkg/mod\<close> \<open>\<rightarrow>\<close> \<^verbatim>\<open>{Foo}\<close> is recorded.
\<close>

theorem dynamic_reference_rewrite_witness:
  \<open>regexExecFrom (substring [] (start (span ex_rewrite)) (spanEnd ex_rewrite)) 0 = None \<and>
   editStep ex_rewrite ([], [], 0) = (Inr (''const x: Foo = y;'', [(''pkg/mod'', [''Foo''])]), 0) \<and>
   demanded [(''pkg/mod'', [''Foo''])] ''pkg/mod'' ''Foo''\<close>
proof -
  have h: "regexExecFrom (substring [] (start (span ex_rewrite)) (spanEnd ex_rewrite)) 0 = None"
    by code_simp
  have r: \<open>recordMatches [] [(9, ''import("pkg/mod").Foo'', ''pkg/mod'', ''Foo'')]
             = [(''pkg/mod'', [''Foo''])]\<close>
    by code_simp
  have s: \<open>splice [] (start (span ex_rewrite)) (spanEnd ex_rewrite)
             (spliceSorted (newText ex_rewrite) 0
                (map matchChange [(9, ''import("pkg/mod").Foo'', ''pkg/mod'', ''Foo'')]))
           = ''const x: Foo = y;''\<close>
    by code_simp
  note th = dynamic_reference_rewrite [OF h, of "[]" 0, unfolded ex_rewrite_matches r s]
  from th have e: \<open>editStep ex_rewrite ([], [], 0)
                    = (Inr (''const x: Foo = y;'', [(''pkg/mod'', [''Foo''])]), 0)\<close>
    by (rule conjunct1)
  from th have d: \<open>demanded [(''pkg/mod'', [''Foo''])] ''pkg/mod'' ''Foo''\<close>
    by simp
  from h e d show ?thesis by blast
qed

text \<open>
  The claim as stated fails on its own example: \<^verbatim>\<open>lookup("pkg/mod").Foo\<close> is a module
  path in double quotes followed by a member access, and the code leaves it as it is and
  records nothing, because the pattern asks for the word \<^verbatim>\<open>import\<close>.
\<close>

theorem dynamic_reference_rewrite_counterexample:
  \<open>regexExecFrom (substring [] (start (span ex_lookup)) (spanEnd ex_lookup)) 0 = None \<and>
   editStep ex_lookup ([], [], 0) = (Inr (''const x: lookup("pkg/mod").Foo = y;'', []), 0) \<and>
   applyTextChanges (\<lambda>_. []) 0 [] [ex_lookup] True
     = (Inr ''const x: lookup("pkg/mod").Foo = y;'', 0) \<and>
   fst (applyTextChanges (\<lambda>_. []) 0 [] [ex_lookup] True) \<noteq> Inr ''const x: Foo = y;''\<close>
  by code_simp

section \<open>C2: the order of the merged import block\<close>

text \<open>
  Adding one pair to the demand, as lines 167 to 170 do, is adding it at the end of the
  list of pairs the demand is written from; so the demand after the loop is the one
  written from all the pairs the loop met, in the order it met them.
\<close>

lemma set_firstSeen: "set (firstSeen xs) = set xs"
  by (induction xs) auto

lemma firstSeen_snoc:
  "firstSeen (xs @ [x]) = (if x \<in> set xs then firstSeen xs else firstSeen xs @ [x])"
  by (induction xs) (auto simp: set_firstSeen)

lemma firstSeen_setAdd: "firstSeen (ts @ [t]) = setAdd (firstSeen ts) t"
  by (simp add: firstSeen_snoc setAdd_def set_firstSeen)

lemma typesOf_snoc:
  "typesOf (ps @ [(m, t)]) k = (if k = m then setAdd (typesOf ps k) t else typesOf ps k)"
  by (simp add: typesOf_def firstSeen_setAdd)

lemma typesOf_unseen: "m \<notin> fst ` set ps \<Longrightarrow> typesOf ps m = []"
proof -
  assume "m \<notin> fst ` set ps"
  then have "filter (\<lambda>p. fst p = m) ps = []"
    by (auto simp: filter_empty_conv)
  then show ?thesis by (simp add: typesOf_def)
qed

lemma keys_demandSpec: "fst ` set (demandSpec ps) = fst ` set ps"
  by (force simp: demandSpec_def set_firstSeen)

lemma demandSpec_snoc: "demandSpec (ps @ [(m, t)]) = addImport (demandSpec ps) m t"
proof (cases "m \<in> fst ` set ps")
  case True
  then have "firstSeen (map fst ps @ [m]) = firstSeen (map fst ps)"
    by (simp add: firstSeen_snoc)
  then have "demandSpec (ps @ [(m, t)])
               = map (\<lambda>k. (k, if k = m then setAdd (typesOf ps k) t else typesOf ps k))
                   (firstSeen (map fst ps))"
    by (simp add: demandSpec_def typesOf_snoc)
  moreover have "addImport (demandSpec ps) m t
               = map (\<lambda>(k, types). if k = m then (k, setAdd types t) else (k, types)) (demandSpec ps)"
    using True by (simp add: addImport_def keys_demandSpec)
  ultimately show ?thesis by (simp add: demandSpec_def comp_def)
next
  case False
  then have "firstSeen (map fst ps @ [m]) = firstSeen (map fst ps) @ [m]"
    by (simp add: firstSeen_snoc)
  then have "demandSpec (ps @ [(m, t)])
               = map (\<lambda>k. (k, if k = m then setAdd (typesOf ps k) t else typesOf ps k))
                   (firstSeen (map fst ps)) @ [(m, setAdd [] t)]"
    using False by (simp add: demandSpec_def typesOf_snoc typesOf_unseen)
  moreover have "addImport (demandSpec ps) m t
               = map (\<lambda>(k, types). if k = m then (k, setAdd types t) else (k, types))
                   (demandSpec ps @ [(m, [])])"
    using False by (simp add: addImport_def keys_demandSpec)
  ultimately show ?thesis by (simp add: demandSpec_def comp_def)
qed

lemma recordMatches_demandSpec:
  "recordMatches (demandSpec ps) ms = demandSpec (ps @ matchPairs ms)"
proof (induction ms arbitrary: ps)
  case Nil
  then show ?case by (simp add: recordMatches_def matchPairs_def)
next
  case (Cons x ms)
  obtain i mt m t where x: "x = (i, mt, m, t)" by (cases x) auto
  have "recordMatches (demandSpec ps) (x # ms) = recordMatches (addImport (demandSpec ps) m t) ms"
    by (simp add: recordMatches_def x)
  also have "\<dots> = recordMatches (demandSpec (ps @ [(m, t)])) ms"
    by (simp only: demandSpec_snoc)
  also have "\<dots> = demandSpec ((ps @ [(m, t)]) @ matchPairs ms)"
    by (rule Cons.IH)
  finally show ?case by (simp add: matchPairs_def x)
qed

lemma editStep_turn:
  "\<exists>ft1 li1. \<forall>imps. editStep c (ft, imps, li)
      = (Inr (ft1, recordMatches imps (turnMatches c (ft, li))), li1)"
proof (cases "regexExecFrom (substring ft (start (span c)) (spanEnd c)) li")
  case None
  then have t: "turnMatches c (ft, li) = matchAll (newText c) 0"
    by (simp add: turnMatches_def regexTest_def spanEnd_def Let_def)
  show ?thesis unfolding t using editStep_unmatched [OF None] by blast
next
  case (Some r)
  obtain i mt m t where r: "r = (i, mt, m, t)" by (cases r) auto
  from Some r have t: "turnMatches c (ft, li) = []"
    by (simp add: turnMatches_def regexTest_def spanEnd_def Let_def)
  have "recordMatches imps [] = imps" for imps by (simp add: recordMatches_def)
  then show ?thesis unfolding t using editStep_matched [OF Some [unfolded r]] by auto
qed

lemma editLoop_demand:
  "\<exists>ft1 li1. editLoop cs (ft, demandSpec ps, li)
      = (Inr (ft1, demandSpec (ps @ matchPairs (loopMatches cs (ft, li)))), li1)"
proof (induction cs arbitrary: ft ps li)
  case Nil
  then show ?case by (simp add: matchPairs_def)
next
  case (Cons c cs)
  from editStep_turn [of c ft li] obtain ft1 li1 where
    st: "\<And>imps. editStep c (ft, imps, li)
           = (Inr (ft1, recordMatches imps (turnMatches c (ft, li))), li1)"
    by blast
  let ?ps1 = "ps @ matchPairs (turnMatches c (ft, li))"
  from Cons.IH [of ft1 ?ps1 li1] obtain ft2 li2 where
    ih: "editLoop cs (ft1, demandSpec ?ps1, li1)
           = (Inr (ft2, demandSpec (?ps1 @ matchPairs (loopMatches cs (ft1, li1)))), li2)"
    by blast
  have lm: "loopMatches (c # cs) (ft, li) = turnMatches c (ft, li) @ loopMatches cs (ft1, li1)"
    by (simp add: st)
  have "editLoop (c # cs) (ft, demandSpec ps, li) = editLoop cs (ft1, demandSpec ?ps1, li1)"
    by (simp add: st recordMatches_demandSpec)
  then show ?case unfolding ih lm by (simp add: matchPairs_def)
qed

text \<open>
  C2. For every text and every list of edits, let \<open>ps\<close> be the (module, identifier)
  pairs of the matches the loop meets, in the order of edit processing. The demand after
  the loop, which is the one \<^verbatim>\<open>applyTextChanges\<close> emits, has the modules of \<open>ps\<close> in
  first-seen order and for each module its identifiers in first-insertion order, without
  duplicates; the merged block is one line per module in that order. In particular, when
  edit A (module \<open>m1\<close>, identifier \<open>X\<close>) is processed before edit B (module \<open>m2\<close>,
  identifiers \<open>Y\<close> and \<open>Z\<close>), the block is the line for \<open>m1\<close> with \<open>X\<close> followed by
  the line for \<open>m2\<close> with \<open>Y, Z\<close>.
\<close>

theorem import_block_first_seen_order:
  assumes "ps = matchPairs (loopMatches (rev textChanges) (fileText, lastIndex))"
  shows "(\<exists>ft1 li1.
            editLoop (rev textChanges) (fileText, [], lastIndex) = (Inr (ft1, demandSpec ps), li1) \<and>
            applyTextChanges importEnds lastIndex fileText textChanges True
              = (insertImports importEnds (removeJsxImports ft1) (demandSpec ps), li1)) \<and>
         importBlock (demandSpec ps)
           = join ''\<newline>''
               (map (\<lambda>m. ''import {'' @ join '', '' (typesOf ps m) @ ''} from '' @ [sq] @ m @ [sq] @ '';'')
                  (firstSeen (map fst ps))) \<and>
         (ps = [(m1, X), (m2, Y), (m2, Z)] \<and> m1 \<noteq> m2 \<and> Y \<noteq> Z \<longrightarrow>
            importBlock (demandSpec ps)
              = ''import {'' @ X @ ''} from '' @ [sq] @ m1 @ [sq] @ '';'' @ ''\<newline>'' @
                ''import {'' @ Y @ '', '' @ Z @ ''} from '' @ [sq] @ m2 @ [sq] @ '';'')"
proof (intro conjI impI)
  from editLoop_demand [of "rev textChanges" fileText "[]" lastIndex]
  obtain ft1 li1 where
    loop: "editLoop (rev textChanges) (fileText, [], lastIndex) = (Inr (ft1, demandSpec ps), li1)"
    unfolding assms by (auto simp: demandSpec_def)
  then have "applyTextChanges importEnds lastIndex fileText textChanges True
               = (insertImports importEnds (removeJsxImports ft1) (demandSpec ps), li1)"
    by (simp add: applyTextChanges_def)
  with loop show "\<exists>ft1 li1.
            editLoop (rev textChanges) (fileText, [], lastIndex) = (Inr (ft1, demandSpec ps), li1) \<and>
            applyTextChanges importEnds lastIndex fileText textChanges True
              = (insertImports importEnds (removeJsxImports ft1) (demandSpec ps), li1)"
    by blast
next
  show "importBlock (demandSpec ps)
           = join ''\<newline>''
               (map (\<lambda>m. ''import {'' @ join '', '' (typesOf ps m) @ ''} from '' @ [sq] @ m @ [sq] @ '';'')
                  (firstSeen (map fst ps)))"
    by (simp add: importBlock_def importLine_def demandSpec_def comp_def)
next
  assume h: "ps = [(m1, X), (m2, Y), (m2, Z)] \<and> m1 \<noteq> m2 \<and> Y \<noteq> Z"
  then have "demandSpec ps = [(m1, [X]), (m2, [Y, Z])]"
    by (auto simp: demandSpec_def typesOf_def)
  then show "importBlock (demandSpec ps)
              = ''import {'' @ X @ ''} from '' @ [sq] @ m1 @ [sq] @ '';'' @ ''\<newline>'' @
                ''import {'' @ Y @ '', '' @ Z @ ''} from '' @ [sq] @ m2 @ [sq] @ '';''"
    by (simp add: importBlock_def importLine_def)
qed

text \<open>
  The witness is the claim's own instance, in a whole run of \<^verbatim>\<open>applyTextChanges\<close> in
  which the edit with \<open>m1\<close> is the last of the list, hence the first one processed; and a
  second run in which the second edit names \<open>m1\<close> and \<open>X\<close> again: \<open>m1\<close> keeps its
  first place and \<open>X\<close> is listed once.
\<close>

lemma ex_file2_pairs:
  \<open>matchPairs (loopMatches (rev [ex_B, ex_A]) (ex_file2, 0))
     = [(''m1'', ''X''), (''m2'', ''Y''), (''m2'', ''Z'')]\<close>
  by code_simp

theorem import_block_first_seen_order_witness:
  \<open>matchPairs (loopMatches (rev [ex_B, ex_A]) (ex_file2, 0))
     = [(''m1'', ''X''), (''m2'', ''Y''), (''m2'', ''Z'')] \<and>
   importBlock (demandSpec [(''m1'', ''X''), (''m2'', ''Y''), (''m2'', ''Z'')])
     = ''import {X} from 'm1';\<newline>import {Y, Z} from 'm2';'' \<and>
   fst (applyTextChanges (\<lambda>_. [20]) 0 ex_file2 [ex_B, ex_A] True)
     = Inr ''import {A} from 'a';\<newline>import {X} from 'm1';\<newline>import {Y, Z} from 'm2';\<newline>let q: Y | Z = g();\<newline>let p: X = f();'' \<and>
   matchPairs (loopMatches (rev [ex_B2, ex_A]) (ex_file2, 0))
     = [(''m1'', ''X''), (''m2'', ''Y''), (''m1'', ''X''), (''m1'', ''W'')] \<and>
   fst (applyTextChanges (\<lambda>_. [20]) 0 ex_file2 [ex_B2, ex_A] True)
     = Inr ''import {A} from 'a';\<newline>import {X, W} from 'm1';\<newline>import {Y} from 'm2';\<newline>let q: Y | X | W = g();\<newline>let p: X = f();''\<close>
proof -
  have a: \<open>''m1'' \<noteq> ''m2''\<close> and b: \<open>''Y'' \<noteq> ''Z''\<close> by simp_all
  note th = import_block_first_seen_order [OF ex_file2_pairs [symmetric],
              of "\<lambda>_. [20]" \<open>''m1''\<close> \<open>''X''\<close> \<open>''m2''\<close> \<open>''Y''\<close> \<open>''Z''\<close>]
  have prem: \<open>[(''m1'', ''X''), (''m2'', ''Y''), (''m2'', ''Z'')]
                 = [(''m1'', ''X''), (''m2'', ''Y''), (''m2'', ''Z'')] \<and> ''m1'' \<noteq> ''m2'' \<and> ''Y'' \<noteq> ''Z''\<close>
    using a b by simp
  from mp [OF th [THEN conjunct2, THEN conjunct2] prem]
  have blk: \<open>importBlock (demandSpec [(''m1'', ''X''), (''m2'', ''Y''), (''m2'', ''Z'')])
     = ''import {X} from 'm1';\<newline>import {Y, Z} from 'm2';''\<close>
    by (simp add: sq_def)
  have run: \<open>fst (applyTextChanges (\<lambda>_. [20]) 0 ex_file2 [ex_B, ex_A] True)
     = Inr ''import {A} from 'a';\<newline>import {X} from 'm1';\<newline>import {Y, Z} from 'm2';\<newline>let q: Y | Z = g();\<newline>let p: X = f();''\<close>
    by code_simp
  have p2: \<open>matchPairs (loopMatches (rev [ex_B2, ex_A]) (ex_file2, 0))
     = [(''m1'', ''X''), (''m2'', ''Y''), (''m1'', ''X''), (''m1'', ''W'')]\<close>
    by code_simp
  have run2: \<open>fst (applyTextChanges (\<lambda>_. [20]) 0 ex_file2 [ex_B2, ex_A] True)
     = Inr ''import {A} from 'a';\<newline>import {X, W} from 'm1';\<newline>import {Y} from 'm2';\<newline>let q: Y | X | W = g();\<newline>let p: X = f();''\<close>
    by code_simp
  from ex_file2_pairs blk run p2 run2 show ?thesis by blast
qed

section \<open>C7: no import declaration to insert after\<close>




section \<open>C8: where the merged import block goes\<close>

text \<open>
  C8, as the code has it. The insertion point is looked for in the text after the edits
  and after the cleanup of line 186. When the loop has recorded a demand and that
  cleaned text has top-level import declarations, the last of them ending at offset
  \<open>E\<close>, the result is the cleaned text up to \<open>E\<close>, one newline, the merged block, and
  the rest of the cleaned text from \<open>E\<close> on, for any list of edits.
\<close>

theorem imports_inserted_after_last_import:
  assumes "editLoop (rev textChanges) (fileText, [], lastIndex) = (Inr (fileText1, imps), lastIndex1)"
    and "imps \<noteq> []"
    and "importEnds (removeJsxImports fileText1) = ends"
    and "ends \<noteq> []"
  shows "fst (applyTextChanges importEnds lastIndex fileText textChanges True)
           = Inr (take (nat (last ends)) (removeJsxImports fileText1)
                  @ ''\<newline>'' @ importBlock imps
                  @ drop (nat (last ends)) (removeJsxImports fileText1))"
  using assms
  by (cases ends)
     (simp_all add: applyTextChanges_def insertImports_def substring_from_0 substringFrom_drop Let_def)

lemma ex_withimport_loop:
  \<open>editLoop (rev [ex_annot2]) (ex_withimport, [], 0)
     = (Inr (''import {A} from 'a';\<newline>export const f: Foo = g();'', [(''pkg/mod'', [''Foo''])]), 0)\<close>
  by code_simp

lemma ex_withimport_clean:
  \<open>removeJsxImports ''import {A} from 'a';\<newline>export const f: Foo = g();''
     = ''import {A} from 'a';\<newline>export const f: Foo = g();''\<close>
  by code_simp

lemma ex_withimport_block:
  \<open>take (nat (last [20])) ''import {A} from 'a';\<newline>export const f: Foo = g();''
     @ ''\<newline>'' @ importBlock [(''pkg/mod'', [''Foo''])]
     @ drop (nat (last [20])) ''import {A} from 'a';\<newline>export const f: Foo = g();''
   = ''import {A} from 'a';\<newline>import {Foo} from 'pkg/mod';\<newline>export const f: Foo = g();''\<close>
  by code_simp

theorem imports_inserted_after_last_import_witness:
  \<open>editLoop (rev [ex_annot2]) (ex_withimport, [], 0)
     = (Inr (''import {A} from 'a';\<newline>export const f: Foo = g();'', [(''pkg/mod'', [''Foo''])]), 0) \<and>
   [(''pkg/mod'', [''Foo''])] \<noteq> ([] :: ImportsMap) \<and>
   [20] \<noteq> ([] :: int list) \<and>
   fst (applyTextChanges (\<lambda>_. [20]) 0 ex_withimport [ex_annot2] True)
     = Inr ''import {A} from 'a';\<newline>import {Foo} from 'pkg/mod';\<newline>export const f: Foo = g();''\<close>
proof -
  have n: \<open>[(''pkg/mod'', [''Foo''])] \<noteq> ([] :: ImportsMap)\<close> by simp
  have e: \<open>(\<lambda>_. [20]) (removeJsxImports ''import {A} from 'a';\<newline>export const f: Foo = g();'') = [20::int]\<close>
    by simp
  have k: "[20] \<noteq> ([] :: int list)" by simp
  note th = imports_inserted_after_last_import [OF ex_withimport_loop n e k,
              unfolded ex_withimport_clean ex_withimport_block]
  from ex_withimport_loop n k th show ?thesis by blast
qed

text \<open>
  The claim as stated fails when the only import declaration of the file is the
  JSX-runtime import: a demand is recorded, the file and the text after the edits have
  an import declaration, ending at offset 40, but line 186 deletes it before the
  insertion point is looked for, and the call throws instead of inserting the block.
\<close>

theorem imports_inserted_after_last_import_counterexample:
  \<open>ex_import_parser ex_jsxfile = [40] \<and>
   editLoop (rev [ex_jsx_annot]) (ex_jsxfile, [], 0)
     = (Inr (''import { JSX } from 'react/jsx-runtime';\<newline>export const f: Foo = g();'',
             [(''pkg/mod'', [''Foo''])]), 0) \<and>
   ex_import_parser ''import { JSX } from 'react/jsx-runtime';\<newline>export const f: Foo = g();'' = [40] \<and>
   applyTextChanges ex_import_parser 0 ex_jsxfile [ex_jsx_annot] True = (Inl (AssertionError []), 0)\<close>
  by code_simp

section \<open>C10: the only throw\<close>

text \<open>
  C10, as the code has it. For every text and every list of edits, whatever their
  spans, the loop ends without an error; \<^verbatim>\<open>applyTextChanges\<close> then throws exactly when
  a demand was recorded and the text after the edits and after the cleanup of line 186
  has no top-level import declaration, and returns a text otherwise. With
  \<^verbatim>\<open>fixupTypes\<close> false it always returns a text.
\<close>

theorem applyTextChanges_raises_only_without_import:
  "\<exists>fileText1 imps lastIndex1.
     editLoop (rev textChanges) (fileText, [], lastIndex) = (Inr (fileText1, imps), lastIndex1) \<and>
     (if imps \<noteq> [] \<and> importEnds (removeJsxImports fileText1) = []
      then applyTextChanges importEnds lastIndex fileText textChanges True
             = (Inl (AssertionError []), lastIndex1)
      else \<exists>s. applyTextChanges importEnds lastIndex fileText textChanges True
             = (Inr s, lastIndex1)) \<and>
     (\<exists>s. applyTextChanges importEnds lastIndex fileText textChanges False = (Inr s, lastIndex))"
proof -
  from editLoop_ok obtain ft1 imps li1 where
    loop: "editLoop (rev textChanges) (fileText, [], lastIndex) = (Inr (ft1, imps), li1)"
    by blast
  have "if imps \<noteq> [] \<and> importEnds (removeJsxImports ft1) = []
        then applyTextChanges importEnds lastIndex fileText textChanges True
               = (Inl (AssertionError []), li1)
        else \<exists>s. applyTextChanges importEnds lastIndex fileText textChanges True = (Inr s, li1)"
    using loop
    by (cases "importEnds (removeJsxImports ft1)")
       (simp_all add: applyTextChanges_def insertImports_def Let_def)
  moreover have "\<exists>s. applyTextChanges importEnds lastIndex fileText textChanges False
                   = (Inr s, lastIndex)"
    by (simp add: applyTextChanges_def)
  ultimately show ?thesis using loop by blast
qed

text \<open>
  The claim as stated fails on a text whose only import declaration is the type-only
  JSX-runtime import: a demand is recorded and the text after the edits still has an
  import declaration, ending at offset 45, yet the call throws, because line 186
  deletes that declaration before the parser is asked.
\<close>

theorem applyTextChanges_raises_only_without_import_counterexample:
  \<open>editLoop (rev [ex_jsx_annot2]) (ex_jsxfile2, [], 0)
     = (Inr (''import { type JSX } from 'react/jsx-runtime';\<newline>export const h: Bar = k();'',
             [(''lib/x'', [''Bar''])]), 0) \<and>
   ex_import_parser ''import { type JSX } from 'react/jsx-runtime';\<newline>export const h: Bar = k();'' = [45] \<and>
   ex_import_parser ''import { type JSX } from 'react/jsx-runtime';\<newline>export const h: Bar = k();'' \<noteq> [] \<and>
   applyTextChanges ex_import_parser 0 ex_jsxfile2 [ex_jsx_annot2] True = (Inl (AssertionError []), 0)\<close>
  by code_simp

section \<open>C9: files with no change, files with several changes\<close>

lemma gen_append:
  "genCodeFixesFromProject rel getFix files (xs @ ys) =
     (case genCodeFixesFromProject rel getFix files xs of
        (yielded, Some e) \<Rightarrow> (yielded, Some e)
      | (yielded, None) \<Rightarrow>
          (yielded @ fst (genCodeFixesFromProject rel getFix files ys),
           snd (genCodeFixesFromProject rel getFix files ys)))"
proof (induction xs)
  case Nil
  then show ?case by simp
next
  case (Cons x xs)
  then show ?case
    by (cases "genCodeFixesFromProject rel getFix files xs")
       (auto simp: Let_def split: option.splits prod.splits)
qed

lemma gen_skip:
  "eligible rel files file \<Longrightarrow> getFix (rel (fileName file)) = [] \<Longrightarrow>
   genCodeFixesFromProject rel getFix files (file # rest) = genCodeFixesFromProject rel getFix files rest"
  by (auto simp: eligible_def Let_def split: option.splits)

lemma gen_abort:
  "eligible rel files file \<Longrightarrow> 1 < length (getFix (rel (fileName file))) \<Longrightarrow>
   genCodeFixesFromProject rel getFix files (file # rest)
     = ([], Some (AssertionError (''Multiple fixes found for '' @ rel (fileName file))))"
  by (auto simp: eligible_def Let_def split: option.splits)

text \<open>
  C9. For a file the loop processes, anywhere in the list of source files: when its
  combined fix has no change, the run is the run without this file (nothing is yielded
  for it, no error); when it has more than one change and no earlier file has ended the
  run, the run ends with the \<^verbatim>\<open>AssertionError\<close> of line 134 and yields what the files
  before it yield, nothing for this file and nothing for any later one.
\<close>

theorem codefix_zero_or_many_changes:
  assumes "eligible rel files file"
  shows "(getFix (rel (fileName file)) = [] \<longrightarrow>
            genCodeFixesFromProject rel getFix files (before @ file # after)
              = genCodeFixesFromProject rel getFix files (before @ after)) \<and>
         (1 < length (getFix (rel (fileName file))) \<and>
          snd (genCodeFixesFromProject rel getFix files before) = None \<longrightarrow>
            genCodeFixesFromProject rel getFix files (before @ file # after)
              = (fst (genCodeFixesFromProject rel getFix files before),
                 Some (AssertionError (''Multiple fixes found for '' @ rel (fileName file)))))"
proof (intro conjI impI)
  assume "getFix (rel (fileName file)) = []"
  then have s: "genCodeFixesFromProject rel getFix files (file # after)
                  = genCodeFixesFromProject rel getFix files after"
    by (rule gen_skip [OF assms])
  show "genCodeFixesFromProject rel getFix files (before @ file # after)
               = genCodeFixesFromProject rel getFix files (before @ after)"
    unfolding gen_append [of rel getFix files before] s ..
next
  assume h: "1 < length (getFix (rel (fileName file))) \<and>
             snd (genCodeFixesFromProject rel getFix files before) = None"
  then obtain ys where b: "genCodeFixesFromProject rel getFix files before = (ys, None)"
    by (cases "genCodeFixesFromProject rel getFix files before") auto
  show "genCodeFixesFromProject rel getFix files (before @ file # after)
          = (fst (genCodeFixesFromProject rel getFix files before),
             Some (AssertionError (''Multiple fixes found for '' @ rel (fileName file))))"
  proof -
    have a: "genCodeFixesFromProject rel getFix files (file # after)
               = ([], Some (AssertionError (''Multiple fixes found for '' @ rel (fileName file))))"
      using assms h by (intro gen_abort) simp_all
    show ?thesis
      unfolding gen_append [of rel getFix files before] a b by simp
  qed
qed

theorem codefix_zero_or_many_changes_witness:
  "eligible (\<lambda>p. p) None (ex_src ''b.ts'') \<and> eligible (\<lambda>p. p) None (ex_src ''c.ts'') \<and>
   ex_fix ''b.ts'' = [] \<and> 1 < length (ex_fix ''c.ts'') \<and>
   snd (genCodeFixesFromProject (\<lambda>p. p) ex_fix None [ex_src ''a.ts'']) = None \<and>
   genCodeFixesFromProject (\<lambda>p. p) ex_fix None ([ex_src ''a.ts''] @ ex_src ''b.ts'' # [ex_src ''d.ts''])
     = genCodeFixesFromProject (\<lambda>p. p) ex_fix None ([ex_src ''a.ts''] @ [ex_src ''d.ts'']) \<and>
   genCodeFixesFromProject (\<lambda>p. p) ex_fix None ([ex_src ''a.ts''] @ ex_src ''c.ts'' # [ex_src ''d.ts''])
     = ([(''a.ts'', [\<lparr>span = \<lparr>start = 0, length' = 0\<rparr>, newText = ''x''\<rparr>])],
        Some (AssertionError ''Multiple fixes found for c.ts''))"
proof -
  have eb: "eligible (\<lambda>p. p) None (ex_src ''b.ts'')" by code_simp
  have ec: "eligible (\<lambda>p. p) None (ex_src ''c.ts'')" by code_simp
  have fb: "ex_fix ((\<lambda>p. p) (fileName (ex_src ''b.ts''))) = []" by code_simp
  have fc: "1 < length (ex_fix ((\<lambda>p. p) (fileName (ex_src ''c.ts''))))" by code_simp
  have pre: "genCodeFixesFromProject (\<lambda>p. p) ex_fix None [ex_src ''a.ts'']
               = ([(''a.ts'', [\<lparr>span = \<lparr>start = 0, length' = 0\<rparr>, newText = ''x''\<rparr>])], None)"
    by code_simp
  have nm: "fileName (ex_src ''c.ts'') = ''c.ts''" "fileName (ex_src ''b.ts'') = ''b.ts''"
    by (simp_all add: ex_src_def)
  from codefix_zero_or_many_changes [OF eb, of ex_fix "[ex_src ''a.ts'']" "[ex_src ''d.ts'']"] fb
  have r1: "genCodeFixesFromProject (\<lambda>p. p) ex_fix None ([ex_src ''a.ts''] @ ex_src ''b.ts'' # [ex_src ''d.ts''])
     = genCodeFixesFromProject (\<lambda>p. p) ex_fix None ([ex_src ''a.ts''] @ [ex_src ''d.ts''])"
    by blast
  from codefix_zero_or_many_changes [OF ec, of ex_fix "[ex_src ''a.ts'']" "[ex_src ''d.ts'']"] fc pre
  have r2: "genCodeFixesFromProject (\<lambda>p. p) ex_fix None ([ex_src ''a.ts''] @ ex_src ''c.ts'' # [ex_src ''d.ts''])
     = ([(''a.ts'', [\<lparr>span = \<lparr>start = 0, length' = 0\<rparr>, newText = ''x''\<rparr>])],
        Some (AssertionError ''Multiple fixes found for c.ts''))"
    by (simp add: nm)
  from eb ec fb fc pre r1 r2 show ?thesis by (simp add: nm)
qed

section \<open>C6: an old text that matches the pattern\<close>

text \<open>
  C6 says: for every edit whose old text matches the pattern, the \<^verbatim>\<open>newText\<close> is
  spliced in unmodified and nothing is recorded for it. The code does not do so for the
  edit at 28 below. \<^verbatim>\<open>dynamicTypeRegex\<close> is global, so \<^verbatim>\<open>test\<close> starts at the
  \<^verbatim>\<open>lastIndex\<close> the test before it left. Both edits replace the text
  \<^verbatim>\<open>import("m").T\<close>. The edit at 56 is processed first: its old text matches and
  \<^verbatim>\<open>lastIndex\<close> becomes 13. For the edit at 28 the test starts at 13 in a text of
  length 13, finds nothing and answers false, although the old text matches the pattern:
  its \<^verbatim>\<open>newText\<close> is rewritten to \<^verbatim>\<open>U\<close>, and \<^verbatim>\<open>U\<close> of module \<^verbatim>\<open>n\<close> is recorded
  and imported.
\<close>

theorem suppression_missed_after_match:
  \<open>substring ex_file6 28 (28 + 13) = ''import("m").T'' \<and>
   regexExecFrom ''import("m").T'' 0 = Some (0, ''import("m").T'', ''m'', ''T'') \<and>
   applyTextChanges (\<lambda>_. [20]) 0 ex_file6 ex_edits6 True
     = (Inr ''import {A} from 'a';\<newline>import {U} from 'n';\<newline>let p: U = f();\<newline>let q: import("n").V = g();'', 0)\<close>
  by code_simp

section \<open>C4: two calls with the same arguments\<close>

text \<open>
  C4 says: two calls of \<^verbatim>\<open>applyTextChanges\<close> with the same text and the same edits
  return the same output, and the call neither reads nor writes state outside its
  arguments. The code reads and writes \<^verbatim>\<open>dynamicTypeRegex.lastIndex\<close>. The first
  call below, started with \<^verbatim>\<open>lastIndex\<close> 0, finds the match in the old text, splices
  the \<^verbatim>\<open>newText\<close> as it is and leaves \<^verbatim>\<open>lastIndex\<close> at 13. The second call, with
  the same text and the same edits, starts with that 13, misses the match, rewrites the
  \<^verbatim>\<open>newText\<close> and inserts an import line.
\<close>

theorem applyTextChanges_second_call_differs:
  \<open>applyTextChanges (\<lambda>_. [20]) 0 ex_file4 ex_edits4 True
     = (Inr ''import {A} from 'a';\<newline>let p: import("n").U = f();'', 13) \<and>
   applyTextChanges (\<lambda>_. [20]) 13 ex_file4 ex_edits4 True
     = (Inr ''import {A} from 'a';\<newline>import {U} from 'n';\<newline>let p: U = f();'', 0)\<close>
  by code_simp

end
